theory Spec2Isabelle
  imports Complex_Main "HOL-Library.Sublist" "HOL-Library.Log_Nat" "HOL-Library.AList"
begin

section \<open>Python values\<close>

text \<open>
  A Python \<open>str\<close> is a sequence of Unicode code points; a code point is a natural number.
  String literals of the source are written with \<open>ustr\<close>.
\<close>

type_synonym pystr = "nat list"

definition ustr :: "string \<Rightarrow> pystr" where
  "ustr s = map of_char s"

text \<open>
  The values that reach \<open>format_output\<close>. A finite \<open>float\<close> is the rational number it
  denotes (NaN and the infinities are not represented). A \<open>dict\<close> with \<open>str\<close> keys is an
  association list in insertion order; a lookup finds the first entry of a key.
\<close>

datatype pyval =
    PNone
  | PBool bool
  | PInt int
  | PFloat rat
  | PStr pystr
  | PList "pyval list"
  | PDict "(pystr \<times> pyval) list"

text \<open>
  The exception classes the code can meet. \<open>KeyboardInterrupt\<close> is the only one that is not
  an \<open>Exception\<close>.
\<close>

datatype exn =
    KeyboardInterrupt
  | KeyError
  | TypeError
  | AttributeError
  | ImportError
  | CalledProcessError
  | FileNotFoundError
  | OSError
  | UnicodeEncodeError
  | RuntimeError

fun is_Exception :: "exn \<Rightarrow> bool" where
  "is_Exception KeyboardInterrupt = False"
| "is_Exception _ = True"

text \<open>A raised exception ends the computation: the rest runs on a returned value only.\<close>

fun bind_res :: "exn + 'a \<Rightarrow> ('a \<Rightarrow> exn + 'b) \<Rightarrow> exn + 'b" where
  "bind_res (Inl e) f = Inl e"
| "bind_res (Inr x) f = f x"

subsection \<open>Built-in operations used by the formatter\<close>

text \<open>Truth value testing, as \<open>not x\<close> and \<open>if x\<close> do it.\<close>

fun truthy :: "pyval \<Rightarrow> bool" where
  "truthy PNone = False"
| "truthy (PBool b) = b"
| "truthy (PInt n) = (n \<noteq> 0)"
| "truthy (PFloat x) = (x \<noteq> 0)"
| "truthy (PStr s) = (s \<noteq> [])"
| "truthy (PList xs) = (xs \<noteq> [])"
| "truthy (PDict d) = (d \<noteq> [])"

text \<open>
  \<open>key in x\<close> for a \<open>str\<close> key: key membership in a dict, element membership in a list,
  substring test in a str; any other operand is not iterable.
\<close>

fun py_contains :: "pystr \<Rightarrow> pyval \<Rightarrow> exn + bool" where
  "py_contains k (PDict d) = Inr (k \<in> fst ` set d)"
| "py_contains k (PList xs) = Inr (PStr k \<in> set xs)"
| "py_contains k (PStr s) = Inr (sublist k s)"
| "py_contains k _ = Inl TypeError"

text \<open>\<open>x[key]\<close> for a \<open>str\<close> key: only a dict can be subscripted with a string.\<close>

fun py_getitem :: "pyval \<Rightarrow> pystr \<Rightarrow> exn + pyval" where
  "py_getitem (PDict d) k = (case map_of d k of None \<Rightarrow> Inl KeyError | Some v \<Rightarrow> Inr v)"
| "py_getitem _ k = Inl TypeError"

text \<open>
  What \<open>for segment in x\<close> iterates over: the elements of a list, the keys of a dict,
  the one-character strings of a str.
\<close>

fun py_iter :: "pyval \<Rightarrow> exn + pyval list" where
  "py_iter (PList xs) = Inr xs"
| "py_iter (PDict d) = Inr (map (PStr \<circ> fst) d)"
| "py_iter (PStr s) = Inr (map (\<lambda>c. PStr [c]) s)"
| "py_iter _ = Inl TypeError"

text \<open>
  \<open>round(x, 2)\<close>. On a float, CPython rounds the exact binary value correctly to two
  decimals, ties to even, and returns the float nearest to that decimal. On an int the
  result is the int itself; a bool is an int.
\<close>

definition round_half_even :: "rat \<Rightarrow> int" where
  "round_half_even q =
     (let f = \<lfloor>q\<rfloor>; r = q - of_int f
      in if r < 1 / 2 then f else if 1 / 2 < r then f + 1 else if even f then f else f + 1)"

definition decimal2 :: "rat \<Rightarrow> rat" where
  "decimal2 x = of_int (round_half_even (x * 100)) / 100"

text \<open>
  The binary64 float nearest to a rational, ties to even, for the normal range
  (no overflow to infinity, no subnormals): 53 significant bits.
\<close>

definition ilog2 :: "rat \<Rightarrow> int" where
  "ilog2 a =
     (let (p, q) = quotient_of a;
          d = int (floorlog 2 (nat p)) - int (floorlog 2 (nat q))
      in if power_int 2 d \<le> a then d else d - 1)"

definition to_double :: "rat \<Rightarrow> rat" where
  "to_double x =
     (if x = 0 then 0
      else let a = \<bar>x\<bar>; u = power_int 2 (ilog2 a - 52)
           in sgn x * of_int (round_half_even (a / u)) * u)"

definition float_round2 :: "rat \<Rightarrow> rat" where
  "float_round2 x = to_double (decimal2 x)"

fun py_round2 :: "pyval \<Rightarrow> exn + pyval" where
  "py_round2 (PFloat x) = Inr (PFloat (float_round2 x))"
| "py_round2 (PInt n) = Inr (PInt n)"
| "py_round2 (PBool b) = Inr (PInt (if b then 1 else 0))"
| "py_round2 _ = Inl TypeError"

text \<open>
  \<open>str.isspace\<close> on one code point and \<open>str.strip()\<close>: the longest run of whitespace is
  removed from each end.
\<close>

definition py_isspace :: "nat \<Rightarrow> bool" where
  "py_isspace c \<longleftrightarrow>
     (9 \<le> c \<and> c \<le> 13) \<or> (28 \<le> c \<and> c \<le> 32) \<or> c = 133 \<or> c = 160 \<or> c = 5760 \<or>
     (8192 \<le> c \<and> c \<le> 8202) \<or> c = 8232 \<or> c = 8233 \<or> c = 8239 \<or> c = 8287 \<or> c = 12288"

definition py_strip :: "pystr \<Rightarrow> pystr" where
  "py_strip s = rev (dropWhile py_isspace (rev (dropWhile py_isspace s)))"

fun py_str_strip :: "pyval \<Rightarrow> exn + pyval" where
  "py_str_strip (PStr s) = Inr (PStr (py_strip s))"
| "py_str_strip _ = Inl AttributeError"

section \<open>The output formatter\<close>

text \<open>
  The body of the loop of \<open>format_output\<close> builds one record. The dict display evaluates
  its values from left to right, so the first failing lookup decides the exception.
\<close>

definition format_segment :: "pyval \<Rightarrow> exn + pyval" where
  "format_segment segment =
     bind_res (py_getitem segment (ustr ''start'')) (\<lambda>s.
     bind_res (py_round2 s) (\<lambda>rs.
     bind_res (py_getitem segment (ustr ''end'')) (\<lambda>en.
     bind_res (py_round2 en) (\<lambda>re.
     bind_res (py_getitem segment (ustr ''text'')) (\<lambda>t.
     bind_res (py_str_strip t) (\<lambda>st.
     Inr (PDict [(ustr ''timestamp'', PDict [(ustr ''start'', rs), (ustr ''end'', re)]),
                 (ustr ''sentence'', st)])))))))"

text \<open>The loop: \<open>formatted_output\<close> is the accumulator, each record is appended to it.\<close>

fun format_loop :: "pyval list \<Rightarrow> pyval list \<Rightarrow> exn + pyval list" where
  "format_loop [] formatted_output = Inr formatted_output"
| "format_loop (segment # rest) formatted_output =
     (case format_segment segment of
        Inl e \<Rightarrow> Inl e
      | Inr formatted_segment \<Rightarrow> format_loop rest (formatted_output @ [formatted_segment]))"

definition format_output :: "pyval \<Rightarrow> exn + pyval list" where
  "format_output transcription_result =
     (if \<not> truthy transcription_result then Inr []
      else bind_res (py_contains (ustr ''segments'') transcription_result) (\<lambda>has_segments.
        if \<not> has_segments then Inr []
        else bind_res (py_getitem transcription_result (ustr ''segments'')) (\<lambda>segs.
             bind_res (py_iter segs) (\<lambda>xs. format_loop xs []))))"

section \<open>JSON serialisation\<close>

text \<open>
  \<open>json.dumps(obj, indent=2, ensure_ascii=False)\<close>. With an indent the encoder puts every
  item of a non-empty list or dict on a line of its own, two spaces deeper than its parent,
  separates items with a comma and a key from its value with a colon and a space; an empty
  list is \<open>[]\<close>. With \<open>ensure_ascii=False\<close> only the quotation mark, the backslash and the
  control characters below U+0020 are escaped.
\<close>

definition hex_digit :: "nat \<Rightarrow> nat" where
  "hex_digit d = (if d < 10 then 48 + d else 87 + d)"

definition json_escape_char :: "nat \<Rightarrow> pystr" where
  "json_escape_char c =
     (if c = 34 then [92, 34]
      else if c = 92 then [92, 92]
      else if c = 8 then [92, 98]
      else if c = 12 then [92, 102]
      else if c = 10 then [92, 110]
      else if c = 13 then [92, 114]
      else if c = 9 then [92, 116]
      else if c < 32 then [92, 117, 48, 48, hex_digit (c div 16), hex_digit (c mod 16)]
      else [c])"

definition py_encode_basestring :: "pystr \<Rightarrow> pystr" where
  "py_encode_basestring s = [34] @ concat (map json_escape_char s) @ [34]"

text \<open>The decimal digits of an int, as \<open>int.__repr__\<close> prints them.\<close>

function nat_repr :: "nat \<Rightarrow> pystr" where
  "nat_repr n = (if n < 10 then [48 + n] else nat_repr (n div 10) @ [48 + n mod 10])"
  by pat_completeness auto
termination
  by (relation "measure id") auto

definition int_repr :: "int \<Rightarrow> pystr" where
  "int_repr i = (if i < 0 then 45 # nat_repr (nat (- i)) else nat_repr (nat i))"

definition newline_indent :: "nat \<Rightarrow> pystr" where
  "newline_indent level = 10 # replicate (2 * level) 32"

text \<open>
  The first argument is \<open>float.__repr__\<close>, the shortest decimal string that reads back as
  the same float; it belongs to the Python runtime and is a parameter here.
\<close>

fun json_encode :: "(rat \<Rightarrow> pystr) \<Rightarrow> nat \<Rightarrow> pyval \<Rightarrow> pystr"
  and json_encode_list :: "(rat \<Rightarrow> pystr) \<Rightarrow> nat \<Rightarrow> pyval list \<Rightarrow> pystr"
  and json_encode_items :: "(rat \<Rightarrow> pystr) \<Rightarrow> nat \<Rightarrow> (pystr \<times> pyval) list \<Rightarrow> pystr"
where
  "json_encode fr level PNone = ustr ''null''"
| "json_encode fr level (PBool b) = (if b then ustr ''true'' else ustr ''false'')"
| "json_encode fr level (PInt i) = int_repr i"
| "json_encode fr level (PFloat x) = fr x"
| "json_encode fr level (PStr s) = py_encode_basestring s"
| "json_encode fr level (PList xs) =
     (if xs = [] then ustr ''[]''
      else [91] @ newline_indent (level + 1) @ json_encode_list fr (level + 1) xs
           @ newline_indent level @ [93])"
| "json_encode fr level (PDict d) =
     (if d = [] then ustr ''{}''
      else [123] @ newline_indent (level + 1) @ json_encode_items fr (level + 1) d
           @ newline_indent level @ [125])"
| "json_encode_list fr level [] = []"
| "json_encode_list fr level (x # xs) =
     (if xs = [] then json_encode fr level x
      else json_encode fr level x @ [44] @ newline_indent level @ json_encode_list fr level xs)"
| "json_encode_items fr level [] = []"
| "json_encode_items fr level (kv # d) =
     (if d = [] then py_encode_basestring (fst kv) @ [58, 32] @ json_encode fr level (snd kv)
      else py_encode_basestring (fst kv) @ [58, 32] @ json_encode fr level (snd kv)
           @ [44] @ newline_indent level @ json_encode_items fr level d)"

definition json_dumps :: "(rat \<Rightarrow> pystr) \<Rightarrow> pyval \<Rightarrow> pystr" where
  "json_dumps fr obj = json_encode fr 0 obj"

text \<open>
  The \<open>utf-8\<close> codec in strict mode: one to four bytes per code point; a surrogate raises
  \<open>UnicodeEncodeError\<close>.
\<close>

definition utf8_char :: "nat \<Rightarrow> nat list option" where
  "utf8_char c =
     (if c < 128 then Some [c]
      else if c < 2048 then Some [192 + c div 64, 128 + c mod 64]
      else if 55296 \<le> c \<and> c \<le> 57343 then None
      else if c < 65536 then Some [224 + c div 4096, 128 + (c div 64) mod 64, 128 + c mod 64]
      else if c < 1114112 then
        Some [240 + c div 262144, 128 + (c div 4096) mod 64, 128 + (c div 64) mod 64, 128 + c mod 64]
      else None)"

fun utf8_encode :: "pystr \<Rightarrow> nat list option" where
  "utf8_encode [] = Some []"
| "utf8_encode (c # cs) =
     (case utf8_char c of
        None \<Rightarrow> None
      | Some bs \<Rightarrow> (case utf8_encode cs of None \<Rightarrow> None | Some rest \<Rightarrow> Some (bs @ rest)))"


section \<open>Paths\<close>

text \<open>
  \<open>os.path\<close> on a POSIX system: the separator is the slash (code point 47), the extension
  separator is the dot (code point 46).
\<close>

definition path_join :: "pystr \<Rightarrow> pystr \<Rightarrow> pystr" where
  "path_join a b =
     (if b \<noteq> [] \<and> hd b = 47 then b
      else if a = [] \<or> last a = 47 then a @ b
      else a @ [47] @ b)"

definition basename :: "pystr \<Rightarrow> pystr" where
  "basename p = rev (takeWhile (\<lambda>c. c \<noteq> 47) (rev p))"

definition dirname :: "pystr \<Rightarrow> pystr" where
  "dirname p =
     (let head = rev (dropWhile (\<lambda>c. c \<noteq> 47) (rev p))
      in if head \<noteq> [] \<and> (\<exists>c \<in> set head. c \<noteq> 47)
         then rev (dropWhile (\<lambda>c. c = 47) (rev head)) else head)"

text \<open>
  \<open>os.path.splitext(p)[0]\<close>: the path without the extension of its last component; leading
  dots of that component do not start an extension.
\<close>

definition splitext_root :: "pystr \<Rightarrow> pystr" where
  "splitext_root p =
     (let name = basename p;
          head = take (length p - length name) p;
          stem = rev (tl (dropWhile (\<lambda>c. c \<noteq> 46) (rev name)))
      in if 46 \<in> set name \<and> (\<exists>c \<in> set stem. c \<noteq> 46) then head @ stem else p)"

text \<open>\<open>p.split('/')\<close> and \<open>'/'.join(comps)\<close>.\<close>

fun split_slash :: "pystr \<Rightarrow> pystr list" where
  "split_slash [] = [[]]"
| "split_slash (c # cs) =
     (if c = 47 then [] # split_slash cs
      else (case split_slash cs of [] \<Rightarrow> [[c]] | x # xs \<Rightarrow> (c # x) # xs))"

fun join_slash :: "pystr list \<Rightarrow> pystr" where
  "join_slash [] = []"
| "join_slash [x] = x"
| "join_slash (x # y # ys) = x @ [47] @ join_slash (y # ys)"

text \<open>
  \<open>os.path.normpath\<close>: empty components and \<open>.\<close> are dropped, \<open>..\<close> takes back the
  component before it; exactly two leading slashes are kept.
\<close>

fun norm_comps :: "bool \<Rightarrow> pystr list \<Rightarrow> pystr list \<Rightarrow> pystr list" where
  "norm_comps rooted new_comps [] = new_comps"
| "norm_comps rooted new_comps (part # comps) =
     (if part = [] \<or> part = [46] then norm_comps rooted new_comps comps
      else if part \<noteq> [46, 46] \<or> (\<not> rooted \<and> new_comps = [])
              \<or> (new_comps \<noteq> [] \<and> last new_comps = [46, 46])
           then norm_comps rooted (new_comps @ [part]) comps
      else if new_comps \<noteq> [] then norm_comps rooted (butlast new_comps) comps
      else norm_comps rooted new_comps comps)"

definition normpath :: "pystr \<Rightarrow> pystr" where
  "normpath p =
     (let initial_slashes =
            (if take 1 p = [47]
             then (if take 2 p = [47, 47] \<and> take 3 p \<noteq> [47, 47, 47] then 2 else 1)
             else (0 :: nat));
          q = replicate initial_slashes 47
              @ join_slash (norm_comps (initial_slashes \<noteq> 0) [] (split_slash p))
      in if q = [] then [46] else q)"

section \<open>The file system and the environment\<close>

text \<open>
  The file system is a tree without symbolic links. An entry is a regular file with its
  bytes or a directory, stored under the list of component names that leads to it from
  the root; the root is a directory. The order of the entries is the order in which a
  directory listing returns them. An entry counts only when every entry on the way to it
  is a directory.
\<close>

datatype node = File "nat list" | Dir

record fs =
  nodes :: "(pystr list \<times> node) list"

definition is_dir :: "fs \<Rightarrow> pystr list \<Rightarrow> bool" where
  "is_dir f c = list_all (\<lambda>q. map_of (nodes f) q = Some Dir) (tl (prefixes c))"

definition node_at :: "fs \<Rightarrow> pystr list \<Rightarrow> node option" where
  "node_at f c =
     (if c = [] then Some Dir
      else if is_dir f (butlast c) then map_of (nodes f) c
      else None)"

text \<open>
  Path resolution, component by component, as the kernel does it: a component can only be
  looked up in a directory, \<open>.\<close> and an empty component stay, \<open>..\<close> goes up. The result
  names the place the path leads to, whether or not there is an entry.
\<close>

fun walk :: "fs \<Rightarrow> pystr list \<Rightarrow> pystr list \<Rightarrow> pystr list option" where
  "walk f cur [] = Some cur"
| "walk f cur (x # xs) =
     (if \<not> is_dir f cur then None
      else if x = [] \<or> x = [46] then walk f cur xs
      else if x = [46, 46] then walk f (butlast cur) xs
      else walk f (cur @ [x]) xs)"

text \<open>The calls into the operating system that change the file system.\<close>

datatype os_call =
    Makedirs pystr
  | Mkdir pystr
  | Rename pystr pystr
  | Rmtree pystr
  | OpenWrite pystr

text \<open>
  What the program does not own: the working directory, the directory and the name that
  \<open>tempfile.mkdtemp\<close> uses, the external processes (an exit status or an exception of
  \<open>subprocess.run\<close>, and what the process did to the file system), the \<open>whisper\<close> library
  (whether its import succeeds, and what loading the model and transcribing returns or
  raises), \<open>float.__repr__\<close>, and the faults of the operating system: a call can fail for a
  reason the file system tree does not show (a permission, a full disk, an interrupt), with
  an exception and the file system it leaves behind. A user interrupt arrives as
  \<open>KeyboardInterrupt\<close> raised by one of these calls, or between the creation of the
  temporary directory and the \<open>try\<close> statement of Variant A.
\<close>

datatype run_outcome = Exited int | RunRaised exn

record env =
  getcwd :: pystr
  gettempdir :: pystr
  temp_name :: pystr
  run_process :: "pystr list \<Rightarrow> fs \<Rightarrow> run_outcome \<times> fs"
  import_whisper :: "exn option"
  whisper_transcribe :: "pystr \<Rightarrow> pystr \<Rightarrow> fs \<Rightarrow> exn + pyval"
  float_repr :: "rat \<Rightarrow> pystr"
  os_fault :: "os_call \<Rightarrow> fs \<Rightarrow> (exn \<times> fs) option"
  interrupt_before_try :: bool

text \<open>A relative path starts at the working directory; the empty path leads nowhere.\<close>

definition resolve :: "env \<Rightarrow> fs \<Rightarrow> pystr \<Rightarrow> pystr list option" where
  "resolve E f p =
     (if p = [] then None
      else walk f [] (split_slash (if hd p = 47 then p else getcwd E @ [47] @ p)))"

definition path_exists :: "env \<Rightarrow> fs \<Rightarrow> pystr \<Rightarrow> bool" where
  "path_exists E f p =
     (case resolve E f p of None \<Rightarrow> False | Some c \<Rightarrow> node_at f c \<noteq> None)"

text \<open>\<open>os.path.abspath\<close>.\<close>

definition abspath :: "env \<Rightarrow> pystr \<Rightarrow> pystr" where
  "abspath E p = normpath (path_join (getcwd E) p)"

text \<open>A new entry at a free place: what was stored below that place does not count.\<close>

definition create :: "pystr list \<Rightarrow> node \<Rightarrow> fs \<Rightarrow> fs" where
  "create c n f =
     f\<lparr>nodes := filter (\<lambda>e. \<not> prefix c (fst e)) (nodes f) @ [(c, n)]\<rparr>"

definition remove_tree :: "pystr list \<Rightarrow> fs \<Rightarrow> fs" where
  "remove_tree c f = f\<lparr>nodes := filter (\<lambda>e. \<not> prefix c (fst e)) (nodes f)\<rparr>"

text \<open>
  \<open>os.makedirs(p, exist_ok=True)\<close> makes every directory on the way that is missing, and
  fails where a regular file is in the way. The directories made before a failure stay.
\<close>

fun walk_create :: "fs \<Rightarrow> pystr list \<Rightarrow> pystr list \<Rightarrow> (exn + unit) \<times> fs" where
  "walk_create f cur [] = (if is_dir f cur then Inr () else Inl OSError, f)"
| "walk_create f cur (x # xs) =
     (if \<not> is_dir f cur then (Inl OSError, f)
      else if x = [] \<or> x = [46] then walk_create f cur xs
      else if x = [46, 46] then walk_create f (butlast cur) xs
      else if node_at f (cur @ [x]) = None then walk_create (create (cur @ [x]) Dir f) (cur @ [x]) xs
      else walk_create f (cur @ [x]) xs)"

definition makedirs :: "env \<Rightarrow> pystr \<Rightarrow> fs \<Rightarrow> (exn + unit) \<times> fs" where
  "makedirs E p f =
     (case os_fault E (Makedirs p) f of
        Some (e, f') \<Rightarrow> (Inl e, f')
      | None \<Rightarrow>
          if p = [] then (Inl FileNotFoundError, f)
          else walk_create f [] (split_slash (if hd p = 47 then p else getcwd E @ [47] @ p)))"

text \<open>The idiom \<open>if not os.path.exists(d): os.makedirs(d, exist_ok=True)\<close>.\<close>

definition ensure_dir :: "env \<Rightarrow> pystr \<Rightarrow> fs \<Rightarrow> (exn + unit) \<times> fs" where
  "ensure_dir E d f = (if \<not> path_exists E f d then makedirs E d f else (Inr (), f))"

text \<open>
  \<open>os.mkdir(p)\<close> makes one directory at a free place in an existing directory.
\<close>

definition os_mkdir :: "env \<Rightarrow> pystr \<Rightarrow> fs \<Rightarrow> (exn + unit) \<times> fs" where
  "os_mkdir E p f =
     (case os_fault E (Mkdir p) f of
        Some (e, f') \<Rightarrow> (Inl e, f')
      | None \<Rightarrow>
         (let q = rev (dropWhile (\<lambda>c. c = 47) (rev p))
          in case resolve E f (if q = [] then p else q) of
               None \<Rightarrow> (Inl FileNotFoundError, f)
             | Some c \<Rightarrow>
                 if node_at f c \<noteq> None then (Inl OSError, f)
                 else (Inr (), create c Dir f)))"

text \<open>
  \<open>tempfile.mkdtemp()\<close>: a new directory \<open>tmp<name>\<close> in the temporary directory; the name is
  the one the generator settles on. The absolute path of the directory is returned.
\<close>

definition mkdtemp :: "env \<Rightarrow> fs \<Rightarrow> (exn + pystr) \<times> fs" where
  "mkdtemp E f =
     (let file = path_join (gettempdir E) (ustr ''tmp'' @ temp_name E)
      in case os_mkdir E file f of
           (Inl e, f') \<Rightarrow> (Inl e, f')
         | (Inr u, f') \<Rightarrow> (Inr (abspath E file), f'))"

text \<open>
  \<open>shutil.rmtree(t)\<close> removes a directory with everything in it. It raises on a path that
  does not lead to a directory, and on the root.
\<close>

definition rmtree :: "env \<Rightarrow> pystr \<Rightarrow> fs \<Rightarrow> (exn + unit) \<times> fs" where
  "rmtree E t f =
     (case os_fault E (Rmtree t) f of
        Some (e, f') \<Rightarrow> (Inl e, f')
      | None \<Rightarrow>
         (case resolve E f t of
            None \<Rightarrow> (Inl FileNotFoundError, f)
          | Some c \<Rightarrow>
              if c = [] \<or> node_at f c \<noteq> Some Dir then (Inl OSError, f)
              else (Inr (), remove_tree c f)))"

text \<open>The last component of a path as the kernel sees it, without trailing slashes.\<close>

definition last_component :: "pystr \<Rightarrow> pystr" where
  "last_component p = basename (rev (dropWhile (\<lambda>c. c = 47) (rev p)))"

text \<open>
  \<open>os.rename(src, dst)\<close>. A regular file takes the place of a regular file or a free
  place; a target that names a directory (an existing one, or any name with a trailing
  slash) is refused. A directory moves with everything in it to a free place or onto an
  empty directory, not into itself. A path that ends in \<open>.\<close> or \<open>..\<close> is refused.
\<close>

definition rebase :: "pystr list \<Rightarrow> pystr list \<Rightarrow> pystr list \<Rightarrow> pystr list" where
  "rebase src dst c = (if prefix src c then dst @ drop (length src) c else c)"

definition os_rename :: "env \<Rightarrow> pystr \<Rightarrow> pystr \<Rightarrow> fs \<Rightarrow> (exn + unit) \<times> fs" where
  "os_rename E src dst f =
     (case os_fault E (Rename src dst) f of
        Some (e, f') \<Rightarrow> (Inl e, f')
      | None \<Rightarrow>
         (let dots = [[46], [46, 46]];
              dst1 = rev (dropWhile (\<lambda>c. c = 47) (rev dst))
          in if last_component src \<in> set dots \<or> last_component dst \<in> set dots
             then (Inl OSError, f)
             else
               (case resolve E f src of
                  None \<Rightarrow> (Inl FileNotFoundError, f)
                | Some s \<Rightarrow>
                   (case node_at f s of
                      None \<Rightarrow> (Inl FileNotFoundError, f)
                    | Some (File content) \<Rightarrow>
                       (case resolve E f dst of
                          None \<Rightarrow> (Inl OSError, f)
                        | Some d \<Rightarrow>
                            if node_at f d = Some Dir \<or> (dst \<noteq> [] \<and> last dst = 47)
                            then (Inl OSError, f)
                            else if d = s then (Inr (), f)
                            else (Inr (), create d (File content) (remove_tree s f)))
                    | Some Dir \<Rightarrow>
                       (case resolve E f (if dst1 = [] then dst else dst1) of
                          None \<Rightarrow> (Inl OSError, f)
                        | Some d \<Rightarrow>
                            if d = s then (Inr (), f)
                            else if s = [] \<or> d = [] \<or> prefix s d
                                    \<or> (case node_at f d of Some (File content) \<Rightarrow> True
                                        | _ \<Rightarrow> False)
                                    \<or> (\<exists>e \<in> set (nodes f). strict_prefix d (fst e)
                                                           \<and> node_at f (fst e) \<noteq> None)
                            then (Inl OSError, f)
                            else (Inr (),
                                  f\<lparr>nodes := map (\<lambda>e. (rebase s d (fst e), snd e))
                                                (filter (\<lambda>e. \<not> prefix d (fst e)) (nodes f))\<rparr>))))))"

text \<open>
  \<open>Path(t).glob("audio.*")\<close>: the entries of the directory \<open>t\<close> whose name starts with
  \<open>audio.\<close>, in listing order, each as the path of the directory joined with the name.
\<close>

definition glob_audio :: "env \<Rightarrow> pystr \<Rightarrow> fs \<Rightarrow> pystr list" where
  "glob_audio E t f =
     (case resolve E f t of
        None \<Rightarrow> []
      | Some c \<Rightarrow>
          if \<not> is_dir f c then []
          else map (path_join t)
                 (remdups
                    (map (\<lambda>e. last (fst e))
                       (filter (\<lambda>e. fst e \<noteq> [] \<and> butlast (fst e) = c
                                     \<and> prefix (ustr ''audio.'') (last (fst e)))
                          (nodes f)))))"

text \<open>
  The world the program acts on: the file system, the texts printed to standard output,
  and the paths the program itself has opened for writing.
\<close>

record world =
  filesys :: fs
  stdout :: "pystr list"
  opened :: "pystr list"

text \<open>The \<open>VideoTranscriber\<close> object.\<close>

record transcriber =
  model_size :: pystr
  temp_dir :: "pystr option"

definition VideoTranscriber :: "pystr \<Rightarrow> transcriber" where
  "VideoTranscriber m = \<lparr>model_size = m, temp_dir = None\<rparr>"

text \<open>\<open>except Exception: return v\<close> around a computation.\<close>

fun except_Exception :: "exn + 'a \<Rightarrow> 'a \<Rightarrow> exn + 'a" where
  "except_Exception (Inl e) v = (if is_Exception e then Inr v else Inl e)"
| "except_Exception (Inr x) v = Inr x"

text \<open>Truth value of an optional string argument: \<open>None\<close> and the empty string are false.\<close>

fun truthy_arg :: "pystr option \<Rightarrow> bool" where
  "truthy_arg None = False"
| "truthy_arg (Some s) = (s \<noteq> [])"

text \<open>\<open>subprocess.run(cmd, capture_output=True, text=True, check=True)\<close>.\<close>

definition subprocess_run :: "env \<Rightarrow> pystr list \<Rightarrow> fs \<Rightarrow> (exn + unit) \<times> fs" where
  "subprocess_run E cmd f =
     (case run_process E cmd f of
        (Exited rc, f') \<Rightarrow> (if rc \<noteq> 0 then Inl CalledProcessError else Inr (), f')
      | (RunRaised e, f') \<Rightarrow> (Inl e, f'))"

text \<open>
  \<open>with open(path, 'w', encoding='utf-8') as f: f.write(text)\<close>: opening creates the file
  at a free place or truncates a regular file, and fails on a directory and on a path that
  leads nowhere. Writing encodes the text first.
\<close>

definition write_text :: "env \<Rightarrow> pystr \<Rightarrow> pystr \<Rightarrow> world \<Rightarrow> (exn + unit) \<times> world" where
  "write_text E path text w =
     (let f = filesys w
      in case os_fault E (OpenWrite path) f of
           Some (e, f') \<Rightarrow> (Inl e, w\<lparr>filesys := f'\<rparr>)
         | None \<Rightarrow>
            (case resolve E f path of
               None \<Rightarrow> (Inl OSError, w)
             | Some c \<Rightarrow>
                (case node_at f c of
                   Some Dir \<Rightarrow> (Inl OSError, w)
                 | _ \<Rightarrow>
                    (case utf8_encode text of
                       None \<Rightarrow>
                         (Inl UnicodeEncodeError,
                          w\<lparr>filesys := f\<lparr>nodes := AList.update c (File []) (nodes f)\<rparr>,
                            opened := opened w @ [path]\<rparr>)
                     | Some bytes \<Rightarrow>
                         (Inr (),
                          w\<lparr>filesys := f\<lparr>nodes := AList.update c (File bytes) (nodes f)\<rparr>,
                            opened := opened w @ [path]\<rparr>)))))"

text \<open>
  \<open>print(text)\<close> on a standard output that encodes with UTF-8: a text that cannot be
  encoded raises and nothing is printed.
\<close>

definition print :: "pystr \<Rightarrow> world \<Rightarrow> (exn + unit) \<times> world" where
  "print text w =
     (case utf8_encode text of
        None \<Rightarrow> (Inl UnicodeEncodeError, w)
      | Some bytes \<Rightarrow> (Inr (), w\<lparr>stdout := stdout w @ [text]\<rparr>))"

section \<open>The adapters\<close>

text \<open>The two command lines for \<open>yt-dlp\<close>.\<close>

definition extract_cmd :: "pystr \<Rightarrow> pystr \<Rightarrow> pystr \<Rightarrow> pystr list" where
  "extract_cmd video_url base_path audio_format =
     [ustr ''yt-dlp'', ustr ''--extract-audio'',
      ustr ''--audio-format'', audio_format,
      ustr ''--audio-quality'', ustr ''0'',
      ustr ''--output'', base_path @ ustr ''.%(ext)s'',
      video_url]"

definition download_cmd :: "pystr \<Rightarrow> pystr \<Rightarrow> pystr list" where
  "download_cmd video_url output_path =
     [ustr ''yt-dlp'', ustr ''--extract-audio'',
      ustr ''--audio-format'', ustr ''wav'',
      ustr ''--audio-quality'', ustr ''0'',
      ustr ''--output'', output_path,
      video_url]"

text \<open>\<open>extract_audio_to_file\<close>: the statements inside \<open>try\<close>, then the two handlers.\<close>

definition extract_audio_body ::
  "env \<Rightarrow> pystr \<Rightarrow> pystr \<Rightarrow> pystr \<Rightarrow> world \<Rightarrow> (exn + bool) \<times> world" where
  "extract_audio_body E video_url output_audio_path audio_format w =
     (let output_dir = dirname output_audio_path;
          (r0, f0) = (if output_dir \<noteq> [] then ensure_dir E output_dir (filesys w)
                      else (Inr (), filesys w))
      in case r0 of
           Inl e \<Rightarrow> (Inl e, w\<lparr>filesys := f0\<rparr>)
         | Inr _ \<Rightarrow>
            (let base_path = splitext_root output_audio_path;
                 (r1, f1) = subprocess_run E (extract_cmd video_url base_path audio_format) f0
             in case r1 of
                  Inl e \<Rightarrow> (Inl e, w\<lparr>filesys := f1\<rparr>)
                | Inr _ \<Rightarrow>
                   (let expected_file = base_path @ [46] @ audio_format
                    in if path_exists E f1 expected_file then
                         (if expected_file \<noteq> output_audio_path then
                            (case os_rename E expected_file output_audio_path f1 of
                               (Inl e, f2) \<Rightarrow> (Inl e, w\<lparr>filesys := f2\<rparr>)
                             | (Inr _, f2) \<Rightarrow> (Inr True, w\<lparr>filesys := f2\<rparr>))
                          else (Inr True, w\<lparr>filesys := f1\<rparr>))
                       else (Inr False, w\<lparr>filesys := f1\<rparr>))))"

definition extract_audio_to_file ::
  "env \<Rightarrow> pystr \<Rightarrow> pystr \<Rightarrow> pystr \<Rightarrow> world \<Rightarrow> (exn + bool) \<times> world" where
  "extract_audio_to_file E video_url output_audio_path audio_format w =
     (case extract_audio_body E video_url output_audio_path audio_format w of
        (r, w') \<Rightarrow> (except_Exception r False, w'))"

definition download_audio :: "env \<Rightarrow> pystr \<Rightarrow> pystr \<Rightarrow> world \<Rightarrow> (exn + bool) \<times> world" where
  "download_audio E video_url output_path w =
     (case subprocess_run E (download_cmd video_url output_path) (filesys w) of
        (r, f') \<Rightarrow> (except_Exception (bind_res r (\<lambda>_. Inr True)) False, w\<lparr>filesys := f'\<rparr>))"

text \<open>
  \<open>transcribe_audio\<close>: \<open>None\<close> when the import fails or anything inside raises an
  \<open>Exception\<close>, the result of the model otherwise.
\<close>

definition transcribe_audio :: "env \<Rightarrow> transcriber \<Rightarrow> pystr \<Rightarrow> world \<Rightarrow> exn + pyval" where
  "transcribe_audio E self audio_path w =
     (case import_whisper E of
        Some e \<Rightarrow> except_Exception (Inl e) PNone
      | None \<Rightarrow> except_Exception (whisper_transcribe E (model_size self) audio_path (filesys w)) PNone)"

definition transcribe_local_audio :: "env \<Rightarrow> transcriber \<Rightarrow> pystr \<Rightarrow> world \<Rightarrow> exn + pyval" where
  "transcribe_local_audio E self audio_path w =
     (if \<not> path_exists E (filesys w) audio_path then Inr PNone
      else transcribe_audio E self audio_path w)"

section \<open>The workflows\<close>

text \<open>
  The last steps, the same in both workflows: format, serialise, then write the file or
  print.
\<close>

definition output_results ::
  "env \<Rightarrow> pyval \<Rightarrow> pystr option \<Rightarrow> world \<Rightarrow> (exn + bool) \<times> world" where
  "output_results E transcription_result output_file w =
     (case format_output transcription_result of
        Inl e \<Rightarrow> (Inl e, w)
      | Inr formatted_output \<Rightarrow>
         (let json_output = json_dumps (float_repr E) (PList formatted_output)
          in if truthy_arg output_file then
               (case write_text E (the output_file) json_output w of
                  (Inl e, w') \<Rightarrow> (Inl e, w')
                | (Inr _, w') \<Rightarrow> (Inr True, w'))
             else
               (case print json_output w of
                  (Inl e, w') \<Rightarrow> (Inl e, w')
                | (Inr _, w') \<Rightarrow> (Inr True, w'))))"

text \<open>\<open>cleanup\<close>: what \<open>shutil.rmtree\<close> raises leaves the method.\<close>

definition cleanup :: "env \<Rightarrow> transcriber \<Rightarrow> world \<Rightarrow> (exn + unit) \<times> world" where
  "cleanup E self w =
     (case temp_dir self of
        None \<Rightarrow> (Inr (), w)
      | Some t \<Rightarrow>
          if t \<noteq> [] \<and> path_exists E (filesys w) t then
            (case rmtree E t (filesys w) of (r, f') \<Rightarrow> (r, w\<lparr>filesys := f'\<rparr>))
          else (Inr (), w))"

text \<open>Variant A: the statements inside \<open>try\<close>.\<close>

definition process_video_body ::
  "env \<Rightarrow> transcriber \<Rightarrow> pystr \<Rightarrow> pystr option \<Rightarrow> pystr \<Rightarrow> world \<Rightarrow> (exn + bool) \<times> world" where
  "process_video_body E self video_url output_file audio_path w =
     (case download_audio E video_url audio_path w of
        (Inl e, w1) \<Rightarrow> (Inl e, w1)
      | (Inr downloaded, w1) \<Rightarrow>
          if \<not> downloaded then (Inr False, w1)
          else
            (case glob_audio E (the (temp_dir self)) (filesys w1) of
               [] \<Rightarrow> (Inr False, w1)
             | actual_audio_path # _ \<Rightarrow>
                (case transcribe_audio E self actual_audio_path w1 of
                   Inl e \<Rightarrow> (Inl e, w1)
                 | Inr transcription_result \<Rightarrow>
                     if \<not> truthy transcription_result then (Inr False, w1)
                     else output_results E transcription_result output_file w1)))"

text \<open>
  Variant A. The temporary directory is made before \<open>try\<close>, and an interrupt that arrives
  there leaves the method at once. \<open>except Exception\<close> turns an exception of the body into
  \<open>False\<close>; \<open>finally\<close> runs \<open>cleanup\<close> on every way out of \<open>try\<close>, and an exception of
  \<open>cleanup\<close> takes the place of the result. The object is returned with its \<open>temp_dir\<close>
  set.
\<close>

definition process_video ::
  "env \<Rightarrow> transcriber \<Rightarrow> pystr \<Rightarrow> pystr option \<Rightarrow> world
     \<Rightarrow> (exn + bool) \<times> transcriber \<times> world" where
  "process_video E self video_url output_file w =
     (case mkdtemp E (filesys w) of
        (Inl e, f) \<Rightarrow> (Inl e, self, w\<lparr>filesys := f\<rparr>)
      | (Inr t, f) \<Rightarrow>
         (let self1 = self\<lparr>temp_dir := Some t\<rparr>;
              audio_path = path_join t (ustr ''audio.%(ext)s'')
          in if interrupt_before_try E then (Inl KeyboardInterrupt, self1, w\<lparr>filesys := f\<rparr>)
             else
               (case process_video_body E self1 video_url output_file audio_path
                       (w\<lparr>filesys := f\<rparr>) of
                  (r, w1) \<Rightarrow>
                    (case cleanup E self1 w1 of
                       (Inl e, w2) \<Rightarrow> (Inl e, self1, w2)
                     | (Inr u, w2) \<Rightarrow> (except_Exception r False, self1, w2)))))"

text \<open>Variant B: the statements inside \<open>try\<close>, then the handler.\<close>

definition process_video_with_audio_save_body ::
  "env \<Rightarrow> transcriber \<Rightarrow> pystr \<Rightarrow> pystr \<Rightarrow> pystr option \<Rightarrow> pystr \<Rightarrow> world
     \<Rightarrow> (exn + bool) \<times> world" where
  "process_video_with_audio_save_body E self video_url audio_output_path
       transcription_output_file audio_format w =
     (let audio_dir = path_join (getcwd E) (ustr ''audio'');
          (r0, f0) = ensure_dir E audio_dir (filesys w)
      in case r0 of
           Inl e \<Rightarrow> (Inl e, w\<lparr>filesys := f0\<rparr>)
         | Inr _ \<Rightarrow>
            (let audio_filename = basename audio_output_path;
                 audio_output_path1 = path_join audio_dir audio_filename;
                 result_dir = path_join (getcwd E) (ustr ''result'');
                 (r1, f1) = (if truthy_arg transcription_output_file
                             then ensure_dir E result_dir f0 else (Inr (), f0));
                 transcription_output_file1 =
                   (if truthy_arg transcription_output_file
                    then Some (path_join result_dir (basename (the transcription_output_file)))
                    else transcription_output_file)
             in case r1 of
                  Inl e \<Rightarrow> (Inl e, w\<lparr>filesys := f1\<rparr>)
                | Inr _ \<Rightarrow>
                   (case extract_audio_to_file E video_url audio_output_path1 audio_format
                           (w\<lparr>filesys := f1\<rparr>) of
                      (Inl e, w2) \<Rightarrow> (Inl e, w2)
                    | (Inr extracted, w2) \<Rightarrow>
                        if \<not> extracted then (Inr False, w2)
                        else
                          (case transcribe_local_audio E self audio_output_path1 w2 of
                             Inl e \<Rightarrow> (Inl e, w2)
                           | Inr transcription_result \<Rightarrow>
                               if \<not> truthy transcription_result then (Inr False, w2)
                               else output_results E transcription_result
                                      transcription_output_file1 w2))))"

definition process_video_with_audio_save ::
  "env \<Rightarrow> transcriber \<Rightarrow> pystr \<Rightarrow> pystr \<Rightarrow> pystr option \<Rightarrow> pystr \<Rightarrow> world
     \<Rightarrow> (exn + bool) \<times> world" where
  "process_video_with_audio_save E self video_url audio_output_path
       transcription_output_file audio_format w =
     (case process_video_with_audio_save_body E self video_url audio_output_path
             transcription_output_file audio_format w of
        (r, w') \<Rightarrow> (except_Exception r False, w'))"

section \<open>The command-line tools\<close>










section \<open>The formatter on a heap\<close>

text \<open>
  Lists and dicts are mutable objects: a value refers to them by address, and two values
  may refer to the same object. The heap is the list of all objects, an address is an
  index into it, and a new object gets the next free address. Numbers and strings are
  immutable and stay values.
\<close>

type_synonym addr = nat

datatype hval = HNone | HBool bool | HInt int | HFloat rat | HStr pystr | HRef addr

datatype hobj = HList "hval list" | HDict "(pystr \<times> hval) list"

type_synonym heap = "hobj list"

definition heap_get :: "heap \<Rightarrow> addr \<Rightarrow> hobj option" where
  "heap_get h a = (if a < length h then Some (h ! a) else None)"

definition alloc :: "hobj \<Rightarrow> heap \<Rightarrow> addr \<times> heap" where
  "alloc obj h = (length h, h @ [obj])"

text \<open>\<open>lst.append(v)\<close> changes the list object in place.\<close>

definition list_append :: "addr \<Rightarrow> hval \<Rightarrow> heap \<Rightarrow> (exn + unit) \<times> heap" where
  "list_append a v h =
     (case heap_get h a of
        Some (HList xs) \<Rightarrow> (Inr (), h[a := HList (xs @ [v])])
      | _ \<Rightarrow> (Inl AttributeError, h))"

fun truthy_h :: "heap \<Rightarrow> hval \<Rightarrow> bool" where
  "truthy_h h HNone = False"
| "truthy_h h (HBool b) = b"
| "truthy_h h (HInt n) = (n \<noteq> 0)"
| "truthy_h h (HFloat x) = (x \<noteq> 0)"
| "truthy_h h (HStr s) = (s \<noteq> [])"
| "truthy_h h (HRef a) =
     (case heap_get h a of Some (HList xs) \<Rightarrow> xs \<noteq> [] | Some (HDict d) \<Rightarrow> d \<noteq> [] | None \<Rightarrow> True)"

fun contains_h :: "heap \<Rightarrow> pystr \<Rightarrow> hval \<Rightarrow> exn + bool" where
  "contains_h h k (HRef a) =
     (case heap_get h a of
        Some (HDict d) \<Rightarrow> Inr (k \<in> fst ` set d)
      | Some (HList xs) \<Rightarrow> Inr (HStr k \<in> set xs)
      | None \<Rightarrow> Inl TypeError)"
| "contains_h h k (HStr s) = Inr (sublist k s)"
| "contains_h h k _ = Inl TypeError"

fun getitem_h :: "heap \<Rightarrow> hval \<Rightarrow> pystr \<Rightarrow> exn + hval" where
  "getitem_h h (HRef a) k =
     (case heap_get h a of
        Some (HDict d) \<Rightarrow> (case map_of d k of None \<Rightarrow> Inl KeyError | Some v \<Rightarrow> Inr v)
      | _ \<Rightarrow> Inl TypeError)"
| "getitem_h h _ k = Inl TypeError"

fun round2_h :: "hval \<Rightarrow> exn + hval" where
  "round2_h (HFloat x) = Inr (HFloat (float_round2 x))"
| "round2_h (HInt n) = Inr (HInt n)"
| "round2_h (HBool b) = Inr (HInt (if b then 1 else 0))"
| "round2_h _ = Inl TypeError"

fun str_strip_h :: "hval \<Rightarrow> exn + hval" where
  "str_strip_h (HStr s) = Inr (HStr (py_strip s))"
| "str_strip_h _ = Inl AttributeError"

text \<open>
  The loop body: the inner dict is built once its two values are there, the outer dict
  once the sentence is there, and the reference to it is appended to the list at address
  \<open>formatted_output\<close>.
\<close>

definition format_segment_h :: "heap \<Rightarrow> hval \<Rightarrow> addr \<Rightarrow> (exn + unit) \<times> heap" where
  "format_segment_h h segment formatted_output =
     (case bind_res (getitem_h h segment (ustr ''start'')) round2_h of
        Inl e \<Rightarrow> (Inl e, h)
      | Inr rs \<Rightarrow>
     (case bind_res (getitem_h h segment (ustr ''end'')) round2_h of
        Inl e \<Rightarrow> (Inl e, h)
      | Inr re \<Rightarrow>
     (case alloc (HDict [(ustr ''start'', rs), (ustr ''end'', re)]) h of
        (timestamp, h1) \<Rightarrow>
     (case bind_res (getitem_h h1 segment (ustr ''text'')) str_strip_h of
        Inl e \<Rightarrow> (Inl e, h1)
      | Inr st \<Rightarrow>
     (case alloc (HDict [(ustr ''timestamp'', HRef timestamp), (ustr ''sentence'', st)]) h1 of
        (formatted_segment, h2) \<Rightarrow>
          list_append formatted_output (HRef formatted_segment) h2)))))"

text \<open>
  \<open>for segment in lst\<close> on a list object: the iterator keeps an index and reads the list
  again at every step, so it sees what the body does to the list. The loop may not end.
\<close>

partial_function (option) format_loop_h ::
  "heap \<Rightarrow> addr \<Rightarrow> nat \<Rightarrow> addr \<Rightarrow> ((exn + unit) \<times> heap) option" where
  "format_loop_h h segments i formatted_output =
     (case heap_get h segments of
        Some (HList xs) \<Rightarrow>
          if i < length xs then
            (case format_segment_h h (xs ! i) formatted_output of
               (Inl e, h') \<Rightarrow> Some (Inl e, h')
             | (Inr u, h') \<Rightarrow> format_loop_h h' segments (i + 1) formatted_output)
          else Some (Inr (), h)
      | _ \<Rightarrow> Some (Inl TypeError, h))"

declare format_loop_h.simps [code]

text \<open>
  Iterating over a dict or a str yields strings; the body raises on the first of them,
  since a string cannot be subscripted with a string.
\<close>

definition format_output_h :: "heap \<Rightarrow> hval \<Rightarrow> ((exn + hval) \<times> heap) option" where
  "format_output_h h transcription_result =
     (case alloc (HList []) h of
        (formatted_output, h0) \<Rightarrow>
          if \<not> truthy_h h0 transcription_result then Some (Inr (HRef formatted_output), h0)
          else
            (case contains_h h0 (ustr ''segments'') transcription_result of
               Inl e \<Rightarrow> Some (Inl e, h0)
             | Inr has_segments \<Rightarrow>
                 if \<not> has_segments then Some (Inr (HRef formatted_output), h0)
                 else
                   (case getitem_h h0 transcription_result (ustr ''segments'') of
                      Inl e \<Rightarrow> Some (Inl e, h0)
                    | Inr (HRef a) \<Rightarrow>
                       (case heap_get h0 a of
                          Some (HList xs) \<Rightarrow>
                            (case format_loop_h h0 a 0 formatted_output of
                               None \<Rightarrow> None
                             | Some (Inl e, h1) \<Rightarrow> Some (Inl e, h1)
                             | Some (Inr u, h1) \<Rightarrow> Some (Inr (HRef formatted_output), h1))
                        | Some (HDict d) \<Rightarrow>
                            if d = [] then Some (Inr (HRef formatted_output), h0)
                            else Some (Inl TypeError, h0)
                        | None \<Rightarrow> Some (Inl TypeError, h0))
                    | Inr (HStr s) \<Rightarrow>
                        if s = [] then Some (Inr (HRef formatted_output), h0)
                        else Some (Inl TypeError, h0)
                    | Inr _ \<Rightarrow> Some (Inl TypeError, h0))))"

text \<open>A heap without dangling references, and a value that refers into it.\<close>

fun val_ok :: "heap \<Rightarrow> hval \<Rightarrow> bool" where
  "val_ok h (HRef a) = (a < length h)"
| "val_ok h _ = True"

fun obj_ok :: "heap \<Rightarrow> hobj \<Rightarrow> bool" where
  "obj_ok h (HList xs) = list_all (val_ok h) xs"
| "obj_ok h (HDict d) = list_all (\<lambda>kv. val_ok h (snd kv)) d"

definition heap_ok :: "heap \<Rightarrow> bool" where
  "heap_ok h = list_all (obj_ok h) h"

section \<open>What the specification speaks of\<close>

text \<open>
  A transcription segment as the data model has it: a mapping with a float under \<open>start\<close>
  and under \<open>end\<close> and a string under \<open>text\<close>. The function reads the three fields.
\<close>

fun segment_fields :: "pyval \<Rightarrow> (rat \<times> rat \<times> pystr) option" where
  "segment_fields (PDict d) =
     (case (map_of d (ustr ''start''), map_of d (ustr ''end''), map_of d (ustr ''text'')) of
        (Some (PFloat s), Some (PFloat e), Some (PStr t)) \<Rightarrow> Some (s, e, t)
      | _ \<Rightarrow> None)"
| "segment_fields _ = None"

text \<open>The formatted record of the specification, for the fields of one segment.\<close>

definition spec_record :: "rat \<Rightarrow> rat \<Rightarrow> pystr \<Rightarrow> pyval" where
  "spec_record s e t =
     PDict [(ustr ''timestamp'',
             PDict [(ustr ''start'', PFloat (float_round2 s)),
                    (ustr ''end'', PFloat (float_round2 e))]),
            (ustr ''sentence'', PStr (py_strip t))]"

text \<open>
  \<open>r\<close> is \<open>t\<close> with leading and trailing whitespace removed: \<open>t\<close> is \<open>r\<close> between two runs
  of whitespace, and \<open>r\<close> neither starts nor ends with whitespace.
\<close>

definition trimmed :: "pystr \<Rightarrow> pystr \<Rightarrow> bool" where
  "trimmed t r \<longleftrightarrow>
     (\<exists>pre post. t = pre @ r @ post \<and> (\<forall>c \<in> set pre. py_isspace c) \<and> (\<forall>c \<in> set post. py_isspace c))
     \<and> (r \<noteq> [] \<longrightarrow> \<not> py_isspace (hd r) \<and> \<not> py_isspace (last r))"


section \<open>An example environment\<close>

text \<open>
  \<open>float.__repr__\<close> on the floats that \<open>round(x, 2)\<close> returns for timestamps of moderate
  size: the digits before the point, and one or two digits after it.
\<close>

definition repr_two_decimals :: "rat \<Rightarrow> pystr" where
  "repr_two_decimals x =
     (let k = round_half_even (x * 100); n = nat \<bar>k\<bar>; cents = n mod 100
      in (if k < 0 then [45] else []) @ nat_repr (n div 100) @ [46]
         @ (if cents mod 10 = 0 then [48 + cents div 10]
            else [48 + cents div 10, 48 + cents mod 10]))"

text \<open>
  An environment for examples: the working directory is \<open>/work\<close>, temporary directories
  are made in \<open>/tmp\<close>, the operating system has no faults and no interrupt arrives before
  \<open>try\<close>; what the external process does, whether \<open>whisper\<close> can be imported and what it
  returns are the three arguments.
\<close>

definition example_env ::
  "(pystr list \<Rightarrow> fs \<Rightarrow> run_outcome \<times> fs) \<Rightarrow> exn option \<Rightarrow> exn + pyval \<Rightarrow> env" where
  "example_env run imported transcription =
     \<lparr>getcwd = ustr ''/work'', gettempdir = ustr ''/tmp'', temp_name = ustr ''k3x9'',
      run_process = run, import_whisper = imported,
      whisper_transcribe = (\<lambda>m p f. transcription),
      float_repr = repr_two_decimals,
      os_fault = (\<lambda>c f. None), interrupt_before_try = False\<rparr>"

definition example_world :: world where
  "example_world =
     \<lparr>filesys = \<lparr>nodes = [([ustr ''tmp''], Dir), ([ustr ''work''], Dir)]\<rparr>,
      stdout = [], opened = []\<rparr>"

text \<open>
  The place a path without dots names for a process whose working directory is \<open>/work\<close>.
\<close>

definition place :: "pystr \<Rightarrow> pystr list" where
  "place p =
     filter (\<lambda>c. c \<noteq> [])
       (split_slash (if p \<noteq> [] \<and> hd p = 47 then p else ustr ''/work/'' @ p))"

text \<open>An external process that is interrupted after it has left a partial file behind.\<close>

definition run_interrupted :: "pystr list \<Rightarrow> fs \<Rightarrow> run_outcome \<times> fs" where
  "run_interrupted cmd f =
     (RunRaised KeyboardInterrupt,
      create (place (ustr ''/tmp/tmpk3x9/audio.wav.part'')) (File [82, 73, 70, 70]) f)"

text \<open>An external process that fails with exit status 1.\<close>

definition run_failing :: "pystr list \<Rightarrow> fs \<Rightarrow> run_outcome \<times> fs" where
  "run_failing cmd f = (Exited 1, f)"

text \<open>
  An external process that fails with exit status 1 after it has put a regular file in
  the place of the temporary directory.
\<close>

definition run_replacing_dir :: "pystr list \<Rightarrow> fs \<Rightarrow> run_outcome \<times> fs" where
  "run_replacing_dir cmd f =
     (Exited 1, create (place (ustr ''/tmp/tmpk3x9'')) (File []) f)"

text \<open>
  An external process that writes the file its \<open>--output\<close> template names, with the
  extension \<open>wav\<close>, and exits with status 0. The template is the last argument but one
  and ends with \<open>%(ext)s\<close>.
\<close>

definition run_writing_wav :: "pystr list \<Rightarrow> fs \<Rightarrow> run_outcome \<times> fs" where
  "run_writing_wav cmd f =
     (if length cmd < 2 then (Exited 2, f)
      else let template = cmd ! (length cmd - 2);
               target = take (length template - 7) template @ ustr ''wav''
           in (Exited 0, create (place target) (File [82, 73, 70, 70]) f))"

definition example_result :: pyval where
  "example_result =
     PDict [(ustr ''text'', PStr (ustr '' hello world again'')),
            (ustr ''segments'',
             PList [PDict [(ustr ''start'', PFloat 0), (ustr ''end'', PFloat (to_double (1236 / 1000))),
                           (ustr ''text'', PStr (ustr ''  hello world  ''))],
                    PDict [(ustr ''start'', PFloat (to_double (1236 / 1000))),
                           (ustr ''end'', PFloat (5 / 2)),
                           (ustr ''text'', PStr (ustr '' again''))]])]"

text \<open>An operating system that refuses to remove directory trees and leaves them as they are.\<close>

definition rmtree_denied :: "os_call \<Rightarrow> fs \<Rightarrow> (exn \<times> fs) option" where
  "rmtree_denied c f = (case c of Rmtree p \<Rightarrow> Some (OSError, f) | _ \<Rightarrow> None)"




section \<open>Runs of the command-line tools\<close>







section \<open>Adapter failures\<close>

text \<open>
  The place where Variant B keeps the audio and the place where it writes the JSON, and
  the file system once Variant B has made its two directories (nothing, when making them
  fails).
\<close>

definition audio_target :: "env \<Rightarrow> pystr \<Rightarrow> pystr" where
  "audio_target E audio_output_path =
     path_join (path_join (getcwd E) (ustr ''audio'')) (basename audio_output_path)"

definition json_target :: "env \<Rightarrow> pystr \<Rightarrow> pystr" where
  "json_target E transcription_output_file =
     path_join (path_join (getcwd E) (ustr ''result'')) (basename transcription_output_file)"

definition prepared :: "env \<Rightarrow> pystr option \<Rightarrow> fs \<Rightarrow> fs option" where
  "prepared E transcription_output_file f =
     (case ensure_dir E (path_join (getcwd E) (ustr ''audio'')) f of
        (Inl e, f0) \<Rightarrow> None
      | (Inr u, f0) \<Rightarrow>
          if truthy_arg transcription_output_file then
            (case ensure_dir E (path_join (getcwd E) (ustr ''result'')) f0 of
               (Inl e, f1) \<Rightarrow> None
             | (Inr u, f1) \<Rightarrow> Some f1)
          else Some f0)"

text \<open>The transcription adapter returns no result.\<close>

definition no_result :: "exn + pyval \<Rightarrow> bool" where
  "no_result r = (case r of Inl e \<Rightarrow> False | Inr v \<Rightarrow> \<not> truthy v)"

text \<open>
  An adapter failure in Variant A, in a run that reaches \<open>try\<close>: the downloader ends with
  a non-zero exit status, or it ends with status 0 and no audio file is found in the
  temporary directory, or the transcription adapter returns no result for the file found.
\<close>

definition adapter_failure_A :: "env \<Rightarrow> transcriber \<Rightarrow> pystr \<Rightarrow> world \<Rightarrow> bool" where
  "adapter_failure_A E self video_url w =
     (\<not> interrupt_before_try E \<and>
      (case mkdtemp E (filesys w) of
         (Inl e, f) \<Rightarrow> False
       | (Inr t, f) \<Rightarrow>
          (case run_process E (download_cmd video_url (path_join t (ustr ''audio.%(ext)s''))) f of
             (RunRaised e, f1) \<Rightarrow> False
           | (Exited rc, f1) \<Rightarrow>
               rc \<noteq> 0 \<or> glob_audio E t f1 = [] \<or>
               no_result (transcribe_audio E (self\<lparr>temp_dir := Some t\<rparr>)
                            (hd (glob_audio E t f1)) (w\<lparr>filesys := f1\<rparr>)))))"

text \<open>The \<open>cleanup\<close> at the end of Variant A does not raise.\<close>

definition cleanup_returns :: "env \<Rightarrow> transcriber \<Rightarrow> pystr \<Rightarrow> pystr option \<Rightarrow> world \<Rightarrow> bool" where
  "cleanup_returns E self video_url output_file w =
     (case mkdtemp E (filesys w) of
        (Inl e, f) \<Rightarrow> True
      | (Inr t, f) \<Rightarrow>
          fst (cleanup E (self\<lparr>temp_dir := Some t\<rparr>)
                 (snd (process_video_body E (self\<lparr>temp_dir := Some t\<rparr>) video_url output_file
                         (path_join t (ustr ''audio.%(ext)s'')) (w\<lparr>filesys := f\<rparr>)))) = Inr ())"

text \<open>
  An adapter failure in Variant B: the downloader ends with a non-zero exit status, or it
  ends with status 0 and the expected audio file is absent, or the audio is extracted and
  the transcription adapter returns no result for it.
\<close>

definition adapter_failure_B ::
  "env \<Rightarrow> transcriber \<Rightarrow> pystr \<Rightarrow> pystr \<Rightarrow> pystr option \<Rightarrow> pystr \<Rightarrow> world \<Rightarrow> bool" where
  "adapter_failure_B E self video_url audio_output_path transcription_output_file audio_format w =
     (case prepared E transcription_output_file (filesys w) of
        None \<Rightarrow> False
      | Some f1 \<Rightarrow>
         (let target = audio_target E audio_output_path; base_path = splitext_root target
          in (case run_process E (extract_cmd video_url base_path audio_format) f1 of
                (RunRaised e, f2) \<Rightarrow> False
              | (Exited rc, f2) \<Rightarrow>
                  rc \<noteq> 0 \<or> \<not> path_exists E f2 (base_path @ [46] @ audio_format))
             \<or> (case extract_audio_to_file E video_url target audio_format (w\<lparr>filesys := f1\<rparr>) of
                   (Inr True, w2) \<Rightarrow> no_result (transcribe_local_audio E self target w2)
                 | _ \<Rightarrow> False)))"

text \<open>
  One file system keeps what another has: every entry is still there, and every directory
  is still a directory.
\<close>

definition keeps :: "fs \<Rightarrow> fs \<Rightarrow> bool" where
  "keeps f f' \<longleftrightarrow>
     (\<forall>q. (node_at f q \<noteq> None \<longrightarrow> node_at f' q \<noteq> None) \<and> (is_dir f q \<longrightarrow> is_dir f' q))"

section \<open>Properties of the formatter\<close>

lemma format_segment_fields:
  assumes "segment_fields seg = Some (s, e, t)"
  shows "format_segment seg = Inr (spec_record s e t)"
proof -
  obtain d where d: "seg = PDict d" using assms by (cases seg) auto
  from assms d have "map_of d (ustr ''start'') = Some (PFloat s)"
    "map_of d (ustr ''end'') = Some (PFloat e)" "map_of d (ustr ''text'') = Some (PStr t)"
    by (auto split: option.splits pyval.splits)
  then show ?thesis by (simp add: format_segment_def d spec_record_def)
qed

lemma format_loop_append:
  assumes "\<forall>seg \<in> set segs. format_segment seg = Inr (g seg)"
  shows "format_loop segs acc = Inr (acc @ map g segs)"
  using assms by (induction segs arbitrary: acc) auto

lemma strip_decomp:
  "\<exists>pre post. t = pre @ py_strip t @ post \<and> (\<forall>c \<in> set pre. py_isspace c) \<and> (\<forall>c \<in> set post. py_isspace c)"
proof -
  let ?a = "takeWhile py_isspace t" and ?m = "dropWhile py_isspace t"
  let ?b = "rev (takeWhile py_isspace (rev ?m))"
  have "rev ?m = takeWhile py_isspace (rev ?m) @ dropWhile py_isspace (rev ?m)" by simp
  then have "?m = py_strip t @ ?b"
    unfolding py_strip_def by (metis rev_append rev_rev_ident)
  then have "t = ?a @ py_strip t @ ?b" by (metis takeWhile_dropWhile_id)
  moreover have "\<forall>c \<in> set ?a. py_isspace c" by (auto dest: set_takeWhileD)
  moreover have "\<forall>c \<in> set ?b. py_isspace c" by (auto dest: set_takeWhileD)
  ultimately show ?thesis by blast
qed

lemma strip_ends:
  assumes ne: "py_strip t \<noteq> []"
  shows "\<not> py_isspace (hd (py_strip t)) \<and> \<not> py_isspace (last (py_strip t))"
proof -
  let ?m = "dropWhile py_isspace t"
  let ?r = "dropWhile py_isspace (rev ?m)"
  have r: "?r \<noteq> []" using ne by (simp add: py_strip_def)
  then have "\<not> py_isspace (hd ?r)" by (rule hd_dropWhile)
  then have l: "\<not> py_isspace (last (py_strip t))" using r by (simp add: py_strip_def last_rev)
  from r have "rev ?m \<noteq> []" by (metis dropWhile.simps(1))
  then have m: "?m \<noteq> []" by (metis rev.simps(1))
  then have hm: "\<not> py_isspace (hd ?m)" by (rule hd_dropWhile)
  have "\<exists>b. ?m = py_strip t @ b"
    unfolding py_strip_def by (metis rev_append rev_rev_ident takeWhile_dropWhile_id)
  then have "hd (py_strip t) = hd ?m" using ne by auto
  with hm l show ?thesis by simp
qed

text \<open>
  Claim C1. For a transcription result that is a mapping with a list of \<open>N\<close> segments under
  \<open>segments\<close>, each segment a mapping with floats under \<open>start\<close> and \<open>end\<close> and a string
  under \<open>text\<close>, \<open>format_output\<close> returns \<open>N\<close> records in the order of the segments; the
  \<open>i\<close>-th record holds the start and end of the \<open>i\<close>-th segment rounded to two decimals and
  its text with leading and trailing whitespace removed. The text \<open>"  hello world  "\<close>
  becomes \<open>"hello world"\<close>.
\<close>

theorem format_output_records:
  assumes segs: "map_of d (ustr ''segments'') = Some (PList segs)"
    and typed: "\<forall>seg \<in> set segs. segment_fields seg \<noteq> None"
  shows "\<exists>recs. format_output (PDict d) = Inr recs \<and> length recs = length segs \<and>
           (\<forall>i < length segs. \<exists>s e t.
              segment_fields (segs ! i) = Some (s, e, t) \<and>
              recs ! i = PDict [(ustr ''timestamp'',
                                 PDict [(ustr ''start'', PFloat (float_round2 s)),
                                        (ustr ''end'', PFloat (float_round2 e))]),
                                (ustr ''sentence'', PStr (py_strip t))] \<and>
              trimmed t (py_strip t)) \<and>
           py_strip (ustr ''  hello world  '') = ustr ''hello world''"
proof -
  let ?g = "\<lambda>seg. case the (segment_fields seg) of (s, e, t) \<Rightarrow> spec_record s e t"
  have each: "\<forall>seg \<in> set segs. format_segment seg = Inr (?g seg)"
  proof
    fix seg assume "seg \<in> set segs"
    with typed obtain s e t where "segment_fields seg = Some (s, e, t)" by fastforce
    then show "format_segment seg = Inr (?g seg)" by (simp add: format_segment_fields)
  qed
  have nonempty: "d \<noteq> []" using segs by auto
  have key: "ustr ''segments'' \<in> fst ` set d" using segs by (metis domI dom_map_of_conv_image_fst)
  have out: "format_output (PDict d) = Inr (map ?g segs)"
    using format_loop_append[OF each, of "[]"] nonempty key segs
    by (simp add: format_output_def)
  have nth: "\<exists>s e t. segment_fields (segs ! i) = Some (s, e, t) \<and>
                map ?g segs ! i = PDict [(ustr ''timestamp'',
                                 PDict [(ustr ''start'', PFloat (float_round2 s)),
                                        (ustr ''end'', PFloat (float_round2 e))]),
                                (ustr ''sentence'', PStr (py_strip t))] \<and>
                trimmed t (py_strip t)" if "i < length segs" for i
  proof -
    from that typed obtain s e t where f: "segment_fields (segs ! i) = Some (s, e, t)"
      by (metis nth_mem not_Some_eq prod_cases3)
    have "trimmed t (py_strip t)" unfolding trimmed_def using strip_decomp strip_ends by blast
    with f that show ?thesis by (simp add: spec_record_def)
  qed
  have ex: "py_strip (ustr ''  hello world  '') = ustr ''hello world''"
    by (simp add: py_strip_def ustr_def py_isspace_def)
  from out nth ex show ?thesis by simp
qed

text \<open>The theorem at a result with one segment.\<close>

theorem format_output_records_witness:
  "map_of [(ustr ''text'', PStr (ustr ''hi'')),
           (ustr ''segments'',
            PList [PDict [(ustr ''start'', PFloat (1 / 8)), (ustr ''end'', PFloat (3 / 2)),
                          (ustr ''text'', PStr (ustr '' a b ''))]])] (ustr ''segments'')
     = Some (PList [PDict [(ustr ''start'', PFloat (1 / 8)), (ustr ''end'', PFloat (3 / 2)),
                          (ustr ''text'', PStr (ustr '' a b ''))]])
   \<and> segment_fields (PDict [(ustr ''start'', PFloat (1 / 8)), (ustr ''end'', PFloat (3 / 2)),
                          (ustr ''text'', PStr (ustr '' a b ''))]) = Some (1 / 8, 3 / 2, ustr '' a b '')
   \<and> (\<exists>recs. format_output (PDict [(ustr ''text'', PStr (ustr ''hi'')),
           (ustr ''segments'',
            PList [PDict [(ustr ''start'', PFloat (1 / 8)), (ustr ''end'', PFloat (3 / 2)),
                          (ustr ''text'', PStr (ustr '' a b ''))]])]) = Inr recs \<and> length recs = 1)"
proof -
  let ?seg = "PDict [(ustr ''start'', PFloat (1 / 8)), (ustr ''end'', PFloat (3 / 2)),
                          (ustr ''text'', PStr (ustr '' a b ''))]"
  let ?d = "[(ustr ''text'', PStr (ustr ''hi'')), (ustr ''segments'', PList [?seg])]"
  have h1: "map_of ?d (ustr ''segments'') = Some (PList [?seg])" by (simp add: ustr_def)
  have h2: "\<forall>seg \<in> set [?seg]. segment_fields seg \<noteq> None" by (simp add: ustr_def)
  from format_output_records[OF h1 h2] have
    "\<exists>recs. format_output (PDict ?d) = Inr recs \<and> length recs = 1" by auto
  moreover have "segment_fields ?seg = Some (1 / 8, 3 / 2, ustr '' a b '')" by (simp add: ustr_def)
  ultimately show ?thesis using h1 by blast
qed

text \<open>
  Claim C2, as the code has it. For an input that is false in a condition (\<open>None\<close>, an empty
  mapping) or a mapping without the key \<open>segments\<close>, \<open>format_output\<close> returns the empty list
  and raises nothing, and the empty list is serialised as \<open>[]\<close>.
\<close>

theorem format_output_empty:
  assumes "\<not> truthy tr \<or> (\<exists>d. tr = PDict d \<and> ustr ''segments'' \<notin> fst ` set d)"
  shows "format_output tr = Inr [] \<and> json_dumps fr (PList []) = ustr ''[]''"
  using assms by (auto simp: format_output_def json_dumps_def)

text \<open>The theorem at \<open>None\<close> and at a mapping that has no \<open>segments\<close>.\<close>

theorem format_output_empty_witness:
  "format_output PNone = Inr [] \<and>
   format_output (PDict [(ustr ''text'', PStr (ustr ''hello''))]) = Inr [] \<and>
   json_dumps (\<lambda>x. []) (PList []) = ustr ''[]''"
proof -
  have "\<not> truthy PNone" by simp
  then have a: "format_output PNone = Inr [] \<and> json_dumps (\<lambda>x. []) (PList []) = ustr ''[]''"
    using format_output_empty[of PNone] by blast
  have "ustr ''segments'' \<notin> fst ` set [(ustr ''text'', PStr (ustr ''hello''))]"
    by (simp add: ustr_def)
  then have "format_output (PDict [(ustr ''text'', PStr (ustr ''hello''))]) = Inr []"
    using format_output_empty[of "PDict [(ustr ''text'', PStr (ustr ''hello''))]"] by blast
  with a show ?thesis by simp
qed

text \<open>
  Claim C2 as stated fails on a malformed input: a segment without the key \<open>text\<close> makes
  \<open>format_output\<close> raise \<open>KeyError\<close>.
\<close>

theorem format_output_malformed_raises:
  "format_output
     (PDict [(ustr ''segments'',
              PList [PDict [(ustr ''start'', PFloat 0), (ustr ''end'', PFloat 1)]])])
   = Inl KeyError"
  by (simp add: format_output_def format_segment_def ustr_def)

subsection \<open>Rounding\<close>

lemma round_half_even_near:
  "\<bar>of_int (round_half_even q) - q\<bar> \<le> 1 / 2"
proof -
  let ?f = "\<lfloor>q\<rfloor>"
  let ?r = "q - of_int ?f"
  have r: "0 \<le> ?r" "?r < 1" by linarith+
  consider "?r < 1 / 2" | "1 / 2 < ?r" | "?r = 1 / 2" by linarith
  then show ?thesis
  proof cases
    case 1
    then have "round_half_even q = ?f" by (simp add: round_half_even_def Let_def)
    with 1 r show ?thesis by simp
  next
    case 2
    then have "round_half_even q = ?f + 1" by (simp add: round_half_even_def Let_def)
    with 2 r show ?thesis by simp
  next
    case 3
    then have "round_half_even q = ?f \<or> round_half_even q = ?f + 1"
      by (simp add: round_half_even_def Let_def)
    with 3 show ?thesis by auto
  qed
qed

lemma round_half_even_tie:
  assumes "\<bar>of_int (round_half_even q) - q\<bar> = 1 / 2"
  shows "even (round_half_even q)"
proof -
  let ?f = "\<lfloor>q\<rfloor>"
  let ?r = "q - of_int ?f"
  have r: "0 \<le> ?r" "?r < 1" by linarith+
  show ?thesis
  proof (cases "?r < 1 / 2")
    case True
    then have "round_half_even q = ?f" by (simp add: round_half_even_def Let_def)
    with assms True r show ?thesis by auto
  next
    case False
    show ?thesis
    proof (cases "1 / 2 < ?r")
      case True
      then have "round_half_even q = ?f + 1" using False by (simp add: round_half_even_def Let_def)
      with assms True r show ?thesis by auto
    next
      case f2: False
      then show ?thesis using False by (simp add: round_half_even_def Let_def)
    qed
  qed
qed

lemma decimal2_near:
  "\<bar>decimal2 x - x\<bar> \<le> 1 / 200"
proof -
  have "\<bar>of_int (round_half_even (x * 100)) - x * 100\<bar> \<le> 1 / 2" by (rule round_half_even_near)
  then show ?thesis unfolding decimal2_def by (simp add: field_simps abs_if split: if_splits)
qed

lemma decimal2_tie:
  assumes "\<bar>decimal2 x - x\<bar> = 1 / 200"
  shows "even (round_half_even (x * 100))"
proof -
  from assms have "\<bar>of_int (round_half_even (x * 100)) - x * 100\<bar> = 1 / 2"
    unfolding decimal2_def by (simp add: field_simps abs_if split: if_splits)
  then show ?thesis by (rule round_half_even_tie)
qed

text \<open>
  Claim C7. The rounding of the formatter is rounding to the nearest value with two
  decimals: the float returned is the one nearest to a multiple \<open>k / 100\<close> that lies within
  half a hundredth of the timestamp, and on an exact tie \<open>k\<close> is even. The float that the
  literal \<open>1.236\<close> denotes is rounded to the float of \<open>1.24\<close>. The float that the literal
  \<open>1.005\<close> denotes lies below the tie and is rounded to \<open>1.0\<close>, one of the two values the
  claim allows.
\<close>

theorem rounding_two_decimals:
  "(\<forall>x. \<exists>k. float_round2 x = to_double (of_int k / 100) \<and> \<bar>of_int k / 100 - x\<bar> \<le> 1 / 200 \<and>
          (\<bar>of_int k / 100 - x\<bar> = 1 / 200 \<longrightarrow> even k)) \<and>
   format_segment (PDict [(ustr ''start'', PFloat (to_double (1236 / 1000))),
                          (ustr ''end'', PFloat (to_double (1005 / 1000))),
                          (ustr ''text'', PStr [])])
     = Inr (PDict [(ustr ''timestamp'',
                    PDict [(ustr ''start'', PFloat (to_double (124 / 100))),
                           (ustr ''end'', PFloat 1)]),
                   (ustr ''sentence'', PStr [])]) \<and>
   (float_round2 (to_double (1005 / 1000)) = 1 \<or>
    float_round2 (to_double (1005 / 1000)) = to_double (101 / 100))"
proof -
  have general: "\<exists>k. float_round2 x = to_double (of_int k / 100) \<and> \<bar>of_int k / 100 - x\<bar> \<le> 1 / 200 \<and>
          (\<bar>of_int k / 100 - x\<bar> = 1 / 200 \<longrightarrow> even k)" for x
  proof -
    let ?k = "round_half_even (x * 100)"
    have "float_round2 x = to_double (of_int ?k / 100)"
      by (simp add: float_round2_def decimal2_def)
    moreover have "\<bar>of_int ?k / 100 - x\<bar> \<le> 1 / 200"
      using decimal2_near[of x] by (simp add: decimal2_def)
    moreover have "\<bar>of_int ?k / 100 - x\<bar> = 1 / 200 \<longrightarrow> even ?k"
      using decimal2_tie[of x] by (simp add: decimal2_def)
    ultimately show ?thesis by blast
  qed
  have a: "float_round2 (to_double (1236 / 1000)) = to_double (124 / 100)" by code_simp
  have b: "float_round2 (to_double (1005 / 1000)) = 1" by code_simp
  have "format_segment (PDict [(ustr ''start'', PFloat (to_double (1236 / 1000))),
                          (ustr ''end'', PFloat (to_double (1005 / 1000))),
                          (ustr ''text'', PStr [])])
     = Inr (PDict [(ustr ''timestamp'',
                    PDict [(ustr ''start'', PFloat (float_round2 (to_double (1236 / 1000)))),
                           (ustr ''end'', PFloat (float_round2 (to_double (1005 / 1000))))]),
                   (ustr ''sentence'', PStr (py_strip []))])"
    by (simp add: format_segment_def ustr_def)
  then have c: "format_segment (PDict [(ustr ''start'', PFloat (to_double (1236 / 1000))),
                          (ustr ''end'', PFloat (to_double (1005 / 1000))),
                          (ustr ''text'', PStr [])])
     = Inr (PDict [(ustr ''timestamp'',
                    PDict [(ustr ''start'', PFloat (to_double (124 / 100))),
                           (ustr ''end'', PFloat 1)]),
                   (ustr ''sentence'', PStr [])])"
    by (simp only: a b) (simp add: py_strip_def)
  from general b c show ?thesis by blast
qed

text \<open>The theorem at the tie \<open>0.125\<close>, which is rounded to the even \<open>0.12\<close>.\<close>

theorem rounding_two_decimals_witness:
  "\<exists>k. float_round2 (1 / 8) = to_double (of_int k / 100) \<and>
       \<bar>of_int k / 100 - (1 / 8 :: rat)\<bar> = 1 / 200 \<and> even k \<and> k = 12"
proof -
  from rounding_two_decimals obtain k :: int where
    k: "float_round2 (1 / 8) = to_double (of_int k / 100)"
       "\<bar>of_int k / 100 - (1 / 8 :: rat)\<bar> \<le> 1 / 200"
       "\<bar>of_int k / 100 - (1 / 8 :: rat)\<bar> = 1 / 200 \<longrightarrow> even k"
    by blast
  from k(2) have "(12 :: rat) \<le> of_int k" "of_int k \<le> (13 :: rat)" by linarith+
  then have "12 \<le> k" "k \<le> 13" by linarith+
  then have "k = 12 \<or> k = 13" by linarith
  then have tie: "\<bar>of_int k / 100 - (1 / 8 :: rat)\<bar> = 1 / 200" by auto
  with k(3) have "even k" by blast
  with \<open>k = 12 \<or> k = 13\<close> have "k = 12" by auto
  with k(1) tie show ?thesis by auto
qed

subsection \<open>The formatter leaves its input alone\<close>

lemma alloc_frame:
  assumes "alloc obj h = (a, h')"
  shows "a = length h \<and> h' = h @ [obj]"
  using assms by (auto simp: alloc_def)

lemma list_append_frame:
  assumes "list_append out v h = (r, h')"
  shows "length h' = length h \<and> (\<forall>a < length h. a \<noteq> out \<longrightarrow> h' ! a = h ! a) \<and>
         ((\<exists>ys. heap_get h out = Some (HList ys)) \<longrightarrow> (\<exists>ys. heap_get h' out = Some (HList ys)))"
  using assms
  by (auto simp: list_append_def heap_get_def split: option.splits hobj.splits if_splits)

lemma format_segment_h_frame:
  assumes run: "format_segment_h h seg out = (r, h')"
    and out: "heap_get h out = Some (HList ys)"
  shows "length h \<le> length h' \<and> (\<forall>a < length h. a \<noteq> out \<longrightarrow> h' ! a = h ! a) \<and>
         (\<exists>ys'. heap_get h' out = Some (HList ys'))"
proof -
  have lt: "out < length h" using out by (auto simp: heap_get_def split: if_splits)
  let ?h1 = "\<lambda>x. h @ [x :: hobj]"
  have keep1: "heap_get (?h1 x) out = Some (HList ys)" for x
    using out lt by (auto simp: heap_get_def nth_append)
  have keep2: "heap_get (?h1 x @ [y]) out = Some (HList ys)" for x y
    using out lt by (auto simp: heap_get_def nth_append)
  show ?thesis
  proof (cases "bind_res (getitem_h h seg (ustr ''start'')) round2_h")
    case (Inl e)
    with run out show ?thesis by (auto simp: format_segment_h_def)
  next
    case rs: (Inr rs)
    show ?thesis
    proof (cases "bind_res (getitem_h h seg (ustr ''end'')) round2_h")
      case (Inl e)
      with run out rs show ?thesis by (auto simp: format_segment_h_def)
    next
      case re: (Inr re)
      let ?ts = "HDict [(ustr ''start'', rs), (ustr ''end'', re)]"
      show ?thesis
      proof (cases "bind_res (getitem_h (?h1 ?ts) seg (ustr ''text'')) str_strip_h")
        case (Inl e)
        with run rs re have "h' = ?h1 ?ts" by (auto simp: format_segment_h_def alloc_def)
        with keep1[of ?ts] lt show ?thesis by (auto simp: nth_append)
      next
        case st: (Inr st)
        let ?rec = "HDict [(ustr ''timestamp'', HRef (length h)), (ustr ''sentence'', st)]"
        let ?h2 = "?h1 ?ts @ [?rec]"
        from run rs re st have la: "list_append out (HRef (Suc (length h))) ?h2 = (r, h')"
          by (simp add: format_segment_h_def alloc_def)
        from list_append_frame[OF la] keep2[of ?ts ?rec]
        have "length h' = length ?h2" "\<forall>a < length ?h2. a \<noteq> out \<longrightarrow> h' ! a = ?h2 ! a"
          "\<exists>ys. heap_get h' out = Some (HList ys)" by blast+
        then show ?thesis by (auto simp: nth_append)
      qed
    qed
  qed
qed

lemma format_loop_h_frame:
  assumes "heap_get h segs = Some (HList xs)"
    and "heap_get h out = Some (HList ys)"
    and "segs \<noteq> out"
  shows "\<exists>r h'. format_loop_h h segs i out = Some (r, h') \<and> length h \<le> length h' \<and>
           (\<forall>a < length h. a \<noteq> out \<longrightarrow> h' ! a = h ! a)"
  using assms
proof (induction "length xs - i" arbitrary: h i ys)
  case 0
  then have "\<not> i < length xs" by simp
  with 0 show ?case by (subst format_loop_h.simps) simp
next
  case (Suc n)
  then have i: "i < length xs" by simp
  obtain r1 h1 where step: "format_segment_h h (xs ! i) out = (r1, h1)" by (cases "format_segment_h h (xs ! i) out")
  from format_segment_h_frame[OF step Suc.prems(2)]
  have f: "length h \<le> length h1" "\<forall>a < length h. a \<noteq> out \<longrightarrow> h1 ! a = h ! a"
    and o: "\<exists>ys'. heap_get h1 out = Some (HList ys')" by blast+
  show ?case
  proof (cases r1)
    case (Inl e)
    with step i Suc.prems(1) f show ?thesis by (subst format_loop_h.simps) simp
  next
    case (Inr u)
    have slt: "segs < length h" using Suc.prems(1) by (auto simp: heap_get_def split: if_splits)
    with f Suc.prems(1,3) have s1: "heap_get h1 segs = Some (HList xs)"
      by (auto simp: heap_get_def split: if_splits)
    from o obtain ys' where o1: "heap_get h1 out = Some (HList ys')" by blast
    have n: "n = length xs - (i + 1)" using Suc.hyps(2) by simp
    from Suc.hyps(1)[OF n s1 o1 Suc.prems(3)] obtain r h' where
      rec: "format_loop_h h1 segs (i + 1) out = Some (r, h')" "length h1 \<le> length h'"
        "\<forall>a < length h1. a \<noteq> out \<longrightarrow> h' ! a = h1 ! a" by blast
    have "format_loop_h h segs i out = Some (r, h')"
      using step Inr i Suc.prems(1) rec(1) by (subst format_loop_h.simps) simp
    moreover have "length h \<le> length h'" using f(1) rec(2) by simp
    moreover have "\<forall>a < length h. a \<noteq> out \<longrightarrow> h' ! a = h ! a" using f rec(2,3) by auto
    ultimately show ?thesis by blast
  qed
qed


lemma getitem_h_ref_ok:
  assumes ok: "heap_ok h" and tr: "val_ok h tr"
    and get: "getitem_h (h @ [obj]) tr k = Inr (HRef a)"
  shows "a < length h"
proof -
  from get obtain t where t: "tr = HRef t" by (cases tr) auto
  with tr have lt: "t < length h" by simp
  with get t obtain d where d: "h ! t = HDict d" "map_of d k = Some (HRef a)"
    by (auto simp: heap_get_def nth_append split: hobj.splits option.splits if_splits)
  from ok lt have "obj_ok h (h ! t)" by (simp add: heap_ok_def list_all_length)
  with d(1) have "list_all (\<lambda>kv. val_ok h (snd kv)) d" by simp
  moreover from d(2) have "(k, HRef a) \<in> set d" by (rule map_of_SomeD)
  ultimately have "val_ok h (HRef a)" by (auto simp: list_all_iff)
  then show ?thesis by simp
qed

text \<open>
  Claim C9. On a heap without dangling references, \<open>format_output\<close> returns, and every
  object that was there before the call is the same object after it: the transcription
  result, its list of segments and every segment keep their entries. What the call builds
  (the result list, the records and their timestamp mappings) lies at new addresses, and
  the value returned is the reference to the new list.
\<close>

theorem format_output_h_frame:
  assumes ok: "heap_ok h" and tr: "val_ok h tr"
  shows "\<exists>r h'. format_output_h h tr = Some (r, h') \<and> length h < length h' \<and>
           (\<forall>a < length h. h' ! a = h ! a) \<and> (\<forall>v. r = Inr v \<longrightarrow> v = HRef (length h))"
proof -
  let ?out = "length h"
  let ?h0 = "h @ [HList []]"
  have base: "length h < length ?h0 \<and> (\<forall>a < length h. ?h0 ! a = h ! a)" by (simp add: nth_append)
  have outl: "heap_get ?h0 ?out = Some (HList [])" by (simp add: heap_get_def)
  have stop: "\<exists>r h'. Some (x, ?h0) = Some (r, h') \<and> length h < length h' \<and>
           (\<forall>a < length h. h' ! a = h ! a) \<and> (\<forall>v. r = Inr v \<longrightarrow> v = HRef (length h))"
    if "x = Inr (HRef ?out) \<or> (\<exists>e. x = Inl e)" for x
    using that base by auto
  show ?thesis
  proof (cases "truthy_h ?h0 tr")
    case False
    then have "format_output_h h tr = Some (Inr (HRef ?out), ?h0)"
      by (simp add: format_output_h_def alloc_def)
    with stop[of "Inr (HRef ?out)"] show ?thesis by simp
  next
    case truthy: True
    show ?thesis
    proof (cases "contains_h ?h0 (ustr ''segments'') tr")
      case (Inl e)
      with truthy have "format_output_h h tr = Some (Inl e, ?h0)"
        by (simp add: format_output_h_def alloc_def)
      with stop[of "Inl e"] show ?thesis by simp
    next
      case has: (Inr has_segments)
      show ?thesis
      proof (cases has_segments)
        case False
        with truthy has have "format_output_h h tr = Some (Inr (HRef ?out), ?h0)"
          by (simp add: format_output_h_def alloc_def)
        with stop[of "Inr (HRef ?out)"] show ?thesis by simp
      next
        case True
        show ?thesis
        proof (cases "getitem_h ?h0 tr (ustr ''segments'')")
          case (Inl e)
          with truthy has True have "format_output_h h tr = Some (Inl e, ?h0)"
            by (simp add: format_output_h_def alloc_def)
          with stop[of "Inl e"] show ?thesis by simp
        next
          case get: (Inr v)
          show ?thesis
          proof (cases "\<exists>a xs. v = HRef a \<and> heap_get ?h0 a = Some (HList xs)")
            case False
            with truthy has True get
            have "format_output_h h tr = Some (Inr (HRef ?out), ?h0)
                  \<or> (\<exists>e. format_output_h h tr = Some (Inl e, ?h0))"
              by (auto simp: format_output_h_def alloc_def split: hval.splits option.splits hobj.splits)
            with stop[of "Inr (HRef ?out)"] stop show ?thesis by auto
          next
            case loop: True
            then obtain a xs where a: "v = HRef a" "heap_get ?h0 a = Some (HList xs)" by blast
            from getitem_h_ref_ok[OF ok tr] get a(1) have alt: "a < length h" by simp
            then have ne: "a \<noteq> ?out" by simp
            from format_loop_h_frame[OF a(2) outl ne, of 0] obtain r h' where
              run: "format_loop_h ?h0 a 0 ?out = Some (r, h')" "length ?h0 \<le> length h'"
                "\<forall>b < length ?h0. b \<noteq> ?out \<longrightarrow> h' ! b = ?h0 ! b" by blast
            have frame: "length h < length h' \<and> (\<forall>b < length h. h' ! b = h ! b)"
              using run(2,3) by (auto simp: nth_append)
            show ?thesis
            proof (cases r)
              case (Inl e)
              with truthy has True get a run(1) have "format_output_h h tr = Some (Inl e, h')"
                by (simp add: format_output_h_def alloc_def)
              with frame show ?thesis by simp
            next
              case (Inr u)
              with truthy has True get a run(1)
              have "format_output_h h tr = Some (Inr (HRef ?out), h')"
                by (simp add: format_output_h_def alloc_def)
              with frame show ?thesis by simp
            qed
          qed
        qed
      qed
    qed
  qed
qed

text \<open>
  The theorem on a heap of three objects: a transcription result, its list of segments
  and one segment.
\<close>

theorem format_output_h_frame_witness:
  "heap_ok [HDict [(ustr ''segments'', HRef 1)], HList [HRef 2],
            HDict [(ustr ''start'', HFloat (1 / 8)), (ustr ''end'', HFloat (3 / 2)),
                   (ustr ''text'', HStr (ustr '' a ''))]] \<and>
   val_ok [HDict [(ustr ''segments'', HRef 1)], HList [HRef 2],
            HDict [(ustr ''start'', HFloat (1 / 8)), (ustr ''end'', HFloat (3 / 2)),
                   (ustr ''text'', HStr (ustr '' a ''))]] (HRef 0) \<and>
   (\<exists>r h'. format_output_h [HDict [(ustr ''segments'', HRef 1)], HList [HRef 2],
            HDict [(ustr ''start'', HFloat (1 / 8)), (ustr ''end'', HFloat (3 / 2)),
                   (ustr ''text'', HStr (ustr '' a ''))]] (HRef 0) = Some (r, h') \<and>
      h' ! 2 = HDict [(ustr ''start'', HFloat (1 / 8)), (ustr ''end'', HFloat (3 / 2)),
                   (ustr ''text'', HStr (ustr '' a ''))] \<and> 3 < length h')"
proof -
  let ?seg = "HDict [(ustr ''start'', HFloat (1 / 8)), (ustr ''end'', HFloat (3 / 2)),
                   (ustr ''text'', HStr (ustr '' a ''))]"
  let ?h = "[HDict [(ustr ''segments'', HRef 1)], HList [HRef 2], ?seg]"
  have ok: "heap_ok ?h" by (simp add: heap_ok_def)
  have tr: "val_ok ?h (HRef 0)" by simp
  from format_output_h_frame[OF ok tr] obtain r h' where
    "format_output_h ?h (HRef 0) = Some (r, h')" "length ?h < length h'"
    "\<forall>a < length ?h. h' ! a = ?h ! a" by blast
  then have "format_output_h ?h (HRef 0) = Some (r, h') \<and> h' ! 2 = ?seg \<and> 3 < length h'"
    by simp
  with ok tr show ?thesis by blast
qed


section \<open>Properties of the file system\<close>

lemma is_Exception_cases: "e = KeyboardInterrupt \<or> is_Exception e"
  by (cases e) auto

lemma map_of_filter_out:
  assumes "\<not> P k"
  shows "map_of (filter (\<lambda>e. P (fst e)) xs) k = None"
  using assms by (induction xs) auto

lemma map_of_filter_keep:
  assumes "P k"
  shows "map_of (filter (\<lambda>e. P (fst e)) xs) k = map_of xs k"
  using assms by (induction xs) auto

lemma is_dir_prefix:
  assumes "is_dir f c" and "prefix q c"
  shows "is_dir f q"
proof -
  from assms(2) obtain r where c: "c = q @ r" by (auto simp: prefix_def)
  have "set (tl (prefixes q)) \<subseteq> set (tl (prefixes (q @ r)))"
    by (cases q) (auto simp: prefixes_append)
  with assms(1) show ?thesis unfolding is_dir_def c list_all_iff by blast
qed

lemma is_dir_self:
  assumes "is_dir f c" and "c \<noteq> []"
  shows "map_of (nodes f) c = Some Dir"
proof -
  have "c \<in> set (tl (prefixes c))" using assms(2) by (cases c) (auto simp: in_set_prefixes)
  with assms(1) show ?thesis unfolding is_dir_def list_all_iff by blast
qed

lemma remove_tree_is_dir:
  assumes "is_dir (remove_tree c f) q"
  shows "is_dir f q \<and> (c \<noteq> [] \<longrightarrow> \<not> prefix c q)"
proof -
  have each: "map_of (nodes f) p = Some Dir \<and> \<not> prefix c p"
    if "map_of (nodes (remove_tree c f)) p = Some Dir" for p
  proof (cases "prefix c p")
    case True
    then have "map_of (nodes (remove_tree c f)) p = None"
      unfolding remove_tree_def using map_of_filter_out[of "\<lambda>k. \<not> prefix c k" p "nodes f"] by simp
    with that show ?thesis by simp
  next
    case False
    then have "map_of (nodes (remove_tree c f)) p = map_of (nodes f) p"
      unfolding remove_tree_def using map_of_filter_keep[of "\<lambda>k. \<not> prefix c k" p "nodes f"] by simp
    with that False show ?thesis by simp
  qed
  from assms each have d: "is_dir f q" unfolding is_dir_def list_all_iff by blast
  have "\<not> prefix c q" if "c \<noteq> []"
  proof
    assume pre: "prefix c q"
    from is_dir_prefix[OF assms pre] have "is_dir (remove_tree c f) c" .
    from is_dir_self[OF this that] each show False by blast
  qed
  with d show ?thesis by blast
qed

lemma walk_mono:
  assumes "\<And>q. is_dir f' q \<Longrightarrow> is_dir f q"
    and "walk f' cur xs = Some r"
  shows "walk f cur xs = Some r"
  using assms(2)
proof (induction xs arbitrary: cur)
  case Nil
  then show ?case by simp
next
  case (Cons x xs)
  from Cons.prems have d': "is_dir f' cur" by (auto split: if_splits)
  then have d: "is_dir f cur" by (rule assms(1))
  from Cons.prems d' Cons.IH d show ?case by (auto split: if_splits)
qed

lemma remove_tree_gone:
  assumes "resolve E f t = Some c" and "c \<noteq> []"
  shows "\<not> path_exists E (remove_tree c f) t"
proof
  assume ex: "path_exists E (remove_tree c f) t"
  then obtain c' where r': "resolve E (remove_tree c f) t = Some c'"
    and n: "node_at (remove_tree c f) c' \<noteq> None"
    by (auto simp: path_exists_def split: option.splits)
  have "resolve E f t = Some c'"
    using r' walk_mono[of "remove_tree c f" f] remove_tree_is_dir[of c f]
    by (auto simp: resolve_def split: if_splits)
  with assms(1) have "c' = c" by simp
  moreover have "map_of (nodes (remove_tree c f)) c = None"
    unfolding remove_tree_def using map_of_filter_out[of "\<lambda>k. \<not> prefix c k" c "nodes f"] by simp
  ultimately show False using n assms(2) by (simp add: node_at_def split: if_splits)
qed

lemma rmtree_gone:
  assumes "rmtree E t f = (Inr u, f')"
  shows "\<not> path_exists E f' t"
proof -
  from assms obtain c where "resolve E f t = Some c" "c \<noteq> []" "f' = remove_tree c f"
    by (auto simp: rmtree_def split: option.splits prod.splits if_splits)
  then show ?thesis using remove_tree_gone by simp
qed

section \<open>Properties of the workflows\<close>

lemma cleanup_gone:
  assumes "cleanup E self w = (Inr u, w')" and "temp_dir self = Some t"
  shows "\<not> path_exists E (filesys w') t \<and> opened w' = opened w \<and> stdout w' = stdout w"
proof (cases "t \<noteq> [] \<and> path_exists E (filesys w) t")
  case True
  with assms obtain f' where "rmtree E t (filesys w) = (Inr u, f')" "w' = w\<lparr>filesys := f'\<rparr>"
    by (auto simp: cleanup_def split: prod.splits)
  then show ?thesis using rmtree_gone by auto
next
  case False
  with assms have w': "w' = w" by (auto simp: cleanup_def)
  have "\<not> path_exists E (filesys w) []" by (simp add: path_exists_def resolve_def)
  with False w' show ?thesis by auto
qed

lemma cleanup_log:
  assumes "cleanup E self w = (r, w')"
  shows "opened w' = opened w \<and> stdout w' = stdout w"
  using assms by (auto simp: cleanup_def split: option.splits prod.splits if_splits)

lemma mkdtemp_Inr:
  assumes "mkdtemp E f = (Inr t, f')"
  shows "t = abspath E (path_join (gettempdir E) (ustr ''tmp'' @ temp_name E))"
  using assms by (auto simp: mkdtemp_def Let_def split: prod.splits sum.splits)

text \<open>
  Claim C3, as the code has it. When no interrupt arrives between the creation of the
  temporary directory and \<open>try\<close>, and \<open>cleanup\<close> does not raise, \<open>process_video\<close> returns
  control in one of three ways, with \<open>True\<close>, with \<open>False\<close> or with the
  \<open>KeyboardInterrupt\<close> of a user interrupt passing through, and in each of them the
  temporary directory does not exist afterwards.
\<close>

theorem process_video_removes_temp_dir:
  assumes mk: "mkdtemp E (filesys w) = (Inr t, f)"
    and no_interrupt: "\<not> interrupt_before_try E"
    and clean: "fst (cleanup E (self\<lparr>temp_dir := Some t\<rparr>)
                   (snd (process_video_body E (self\<lparr>temp_dir := Some t\<rparr>) video_url output_file
                           (path_join t (ustr ''audio.%(ext)s'')) (w\<lparr>filesys := f\<rparr>)))) = Inr ()"
  shows "\<exists>r self' w'. process_video E self video_url output_file w = (r, self', w') \<and>
           temp_dir self' = Some t \<and> \<not> path_exists E (filesys w') t \<and>
           (r = Inr True \<or> r = Inr False \<or> r = Inl KeyboardInterrupt)"
proof -
  let ?self1 = "self\<lparr>temp_dir := Some t\<rparr>"
  obtain r0 w1 where body:
    "process_video_body E ?self1 video_url output_file (path_join t (ustr ''audio.%(ext)s''))
       (w\<lparr>filesys := f\<rparr>) = (r0, w1)"
    by (cases "process_video_body E ?self1 video_url output_file
                 (path_join t (ustr ''audio.%(ext)s'')) (w\<lparr>filesys := f\<rparr>)")
  with clean obtain w2 where cl: "cleanup E ?self1 w1 = (Inr (), w2)"
    by (cases "cleanup E ?self1 w1") auto
  from mk no_interrupt body cl have run: "process_video E self video_url output_file w
      = (except_Exception r0 False, ?self1, w2)"
    by (simp add: process_video_def Let_def)
  from cleanup_gone[OF cl] have gone: "\<not> path_exists E (filesys w2) t" by simp
  have "except_Exception r0 False = Inr True \<or> except_Exception r0 False = Inr False
        \<or> except_Exception r0 False = Inl KeyboardInterrupt"
  proof (cases r0)
    case (Inl e)
    then show ?thesis using is_Exception_cases[of e] by auto
  next
    case (Inr b)
    then show ?thesis by (cases b) auto
  qed
  with run gone show ?thesis by simp
qed

text \<open>
  The theorem in an environment where the user interrupts the download after a partial
  file has been written into the temporary directory.
\<close>

theorem process_video_removes_temp_dir_witness:
  "mkdtemp (example_env run_interrupted None (Inr PNone)) (filesys example_world)
     = (Inr (ustr ''/tmp/tmpk3x9''),
        \<lparr>nodes = [([ustr ''tmp''], Dir), ([ustr ''work''], Dir),
                  ([ustr ''tmp'', ustr ''tmpk3x9''], Dir)]\<rparr>) \<and>
   (\<exists>self' w'. process_video (example_env run_interrupted None (Inr PNone))
                  (VideoTranscriber (ustr ''base'')) (ustr ''https://example.org/v'') None
                  example_world = (Inl KeyboardInterrupt, self', w') \<and>
                \<not> path_exists (example_env run_interrupted None (Inr PNone)) (filesys w')
                    (ustr ''/tmp/tmpk3x9'') \<and>
                filesys w' = filesys example_world)"
proof -
  let ?E = "example_env run_interrupted None (Inr PNone)"
  let ?self = "VideoTranscriber (ustr ''base'')"
  let ?url = "ustr ''https://example.org/v''"
  let ?f = "\<lparr>nodes = [([ustr ''tmp''], Dir), ([ustr ''work''], Dir),
                  ([ustr ''tmp'', ustr ''tmpk3x9''], Dir)]\<rparr>"
  have mk: "mkdtemp ?E (filesys example_world) = (Inr (ustr ''/tmp/tmpk3x9''), ?f)"
    by code_simp
  have ni: "\<not> interrupt_before_try ?E" by (simp add: example_env_def)
  have cl: "fst (cleanup ?E (?self\<lparr>temp_dir := Some (ustr ''/tmp/tmpk3x9'')\<rparr>)
                   (snd (process_video_body ?E (?self\<lparr>temp_dir := Some (ustr ''/tmp/tmpk3x9'')\<rparr>)
                           ?url None
                           (path_join (ustr ''/tmp/tmpk3x9'') (ustr ''audio.%(ext)s''))
                           (example_world\<lparr>filesys := ?f\<rparr>)))) = Inr ()"
    by code_simp
  from process_video_removes_temp_dir[OF mk ni cl]
  obtain r self' w' where
    run: "process_video ?E ?self ?url None example_world = (r, self', w')"
    and gone: "\<not> path_exists ?E (filesys w') (ustr ''/tmp/tmpk3x9'')" by blast
  have ev: "process_video ?E ?self ?url None example_world
            = (Inl KeyboardInterrupt, ?self\<lparr>temp_dir := Some (ustr ''/tmp/tmpk3x9'')\<rparr>,
               example_world)"
    by code_simp
  with run gone mk show ?thesis by auto
qed

text \<open>
  Claim C3 as stated fails where \<open>shutil.rmtree\<close> raises: with a downloader that fails and
  an operating system that refuses to remove the directory, \<open>process_video\<close> ends with the
  exception of \<open>cleanup\<close> and the temporary directory is still there.
\<close>

theorem process_video_leaves_temp_dir:
  "\<exists>self' w'. process_video ((example_env run_failing None (Inr PNone))\<lparr>os_fault := rmtree_denied\<rparr>)
                 (VideoTranscriber (ustr ''base'')) (ustr ''https://example.org/v'') None
                 example_world = (Inl OSError, self', w') \<and>
               temp_dir self' = Some (ustr ''/tmp/tmpk3x9'') \<and>
               path_exists ((example_env run_failing None (Inr PNone))\<lparr>os_fault := rmtree_denied\<rparr>)
                 (filesys w') (ustr ''/tmp/tmpk3x9'') \<and>
               node_at (filesys w') [ustr ''tmp'', ustr ''tmpk3x9''] = Some Dir"
proof -
  let ?E = "(example_env run_failing None (Inr PNone))\<lparr>os_fault := rmtree_denied\<rparr>"
  let ?w = "example_world\<lparr>filesys := \<lparr>nodes = [([ustr ''tmp''], Dir), ([ustr ''work''], Dir),
                  ([ustr ''tmp'', ustr ''tmpk3x9''], Dir)]\<rparr>\<rparr>"
  have "process_video ?E (VideoTranscriber (ustr ''base'')) (ustr ''https://example.org/v'') None
          example_world
        = (Inl OSError, (VideoTranscriber (ustr ''base''))\<lparr>temp_dir := Some (ustr ''/tmp/tmpk3x9'')\<rparr>, ?w)"
    by code_simp
  moreover have "path_exists ?E (filesys ?w) (ustr ''/tmp/tmpk3x9'')" by code_simp
  moreover have "node_at (filesys ?w) [ustr ''tmp'', ustr ''tmpk3x9''] = Some Dir" by code_simp
  ultimately show ?thesis by simp
qed

subsection \<open>Directories\<close>

lemma is_dir_snoc:
  "is_dir f (c @ [x]) \<longleftrightarrow> is_dir f c \<and> map_of (nodes f) (c @ [x]) = Some Dir"
proof -
  have "tl (prefixes (c @ [x])) = tl (prefixes c) @ [c @ [x]]"
    by (cases "prefixes c") (auto simp: prefixes_snoc)
  then show ?thesis by (auto simp: is_dir_def)
qed

lemma is_dir_node_at:
  assumes "is_dir f c"
  shows "node_at f c = Some Dir"
proof (cases "c = []")
  case True
  then show ?thesis by (simp add: node_at_def)
next
  case False
  then obtain b x where c: "c = b @ [x]" by (metis rev_exhaust)
  with assms show ?thesis by (simp add: node_at_def is_dir_snoc)
qed

lemma map_of_create_other:
  assumes "\<not> prefix c p"
  shows "map_of (nodes (create c n f)) p = map_of (nodes f) p"
proof -
  have "p \<noteq> c" using assms by auto
  then show ?thesis
    unfolding create_def
    using map_of_filter_keep[of "\<lambda>k. \<not> prefix c k" p "nodes f"] assms
    by (auto simp: map_add_def split: option.splits)
qed

lemma map_of_create_self: "map_of (nodes (create c n f)) c = Some n"
  unfolding create_def
  using map_of_filter_out[of "\<lambda>k. \<not> prefix c k" c "nodes f"]
  by (auto simp: map_add_def)

lemma create_keeps_dirs:
  assumes free: "node_at f c = None" and d: "is_dir f q"
  shows "is_dir (create c n f) q"
proof -
  have "map_of (nodes (create c n f)) p = Some Dir" if p: "p \<in> set (tl (prefixes q))" for p
  proof -
    from d p have dp: "map_of (nodes f) p = Some Dir" by (auto simp: is_dir_def list_all_iff)
    have "p \<in> set (prefixes q)" using p by (cases "prefixes q") auto
    then have "prefix p q" by (simp add: in_set_prefixes)
    from is_dir_prefix[OF d this] have "is_dir f p" .
    have "\<not> prefix c p"
    proof
      assume "prefix c p"
      from is_dir_prefix[OF \<open>is_dir f p\<close> this] have "is_dir f c" .
      with is_dir_node_at free show False by fastforce
    qed
    with dp show ?thesis by (simp add: map_of_create_other)
  qed
  then show ?thesis by (auto simp: is_dir_def list_all_iff)
qed

lemma create_dir_is_dir:
  assumes free: "node_at f (c @ [x]) = None" and d: "is_dir f c"
  shows "is_dir (create (c @ [x]) Dir f) (c @ [x])"
  using create_keeps_dirs[OF free d] by (simp add: is_dir_snoc map_of_create_self)

lemma walk_create_ok:
  assumes "walk_create f cur xs = (Inr u, f')"
  shows "(\<forall>q. is_dir f q \<longrightarrow> is_dir f' q) \<and> (\<exists>c. walk f' cur xs = Some c \<and> is_dir f' c)"
  using assms
proof (induction xs arbitrary: f cur)
  case Nil
  then show ?case by (auto split: if_splits)
next
  case (Cons x xs)
  from Cons.prems have cur: "is_dir f cur" by (auto split: if_splits)
  show ?case
  proof (cases "x = [] \<or> x = [46]")
    case True
    with Cons.prems cur have "walk_create f cur xs = (Inr u, f')" by auto
    from Cons.IH[OF this] True cur show ?thesis by auto
  next
    case plain: False
    show ?thesis
    proof (cases "x = [46, 46]")
      case True
      with Cons.prems cur plain have "walk_create f (butlast cur) xs = (Inr u, f')" by auto
      from Cons.IH[OF this] True plain cur show ?thesis by auto
    next
      case name: False
      show ?thesis
      proof (cases "node_at f (cur @ [x]) = None")
        case True
        let ?f1 = "create (cur @ [x]) Dir f"
        from Cons.prems cur plain name True have "walk_create ?f1 (cur @ [x]) xs = (Inr u, f')"
          by auto
        from Cons.IH[OF this] have ih: "\<forall>q. is_dir ?f1 q \<longrightarrow> is_dir f' q"
          "\<exists>c. walk f' (cur @ [x]) xs = Some c \<and> is_dir f' c" by blast+
        have mono: "\<forall>q. is_dir f q \<longrightarrow> is_dir f' q"
          using create_keeps_dirs[OF True] ih(1) by blast
        with cur have "is_dir f' cur" by blast
        with ih(2) plain name mono show ?thesis by auto
      next
        case False
        with Cons.prems cur plain name have "walk_create f (cur @ [x]) xs = (Inr u, f')" by auto
        from Cons.IH[OF this] plain name cur show ?thesis by auto
      qed
    qed
  qed
qed

lemma dir_exists:
  assumes "resolve E f p = Some c" and "is_dir f c"
  shows "path_exists E f p"
  using assms is_dir_node_at by (simp add: path_exists_def)

lemma keeps_refl: "keeps f f"
  by (simp add: keeps_def)

lemma keeps_trans: "keeps f g \<Longrightarrow> keeps g h \<Longrightarrow> keeps f h"
  by (simp add: keeps_def)

lemma keeps_exists:
  assumes k: "keeps f f'" and ex: "path_exists E f p"
  shows "path_exists E f' p"
proof -
  from ex obtain c where c: "resolve E f p = Some c" "node_at f c \<noteq> None"
    by (auto simp: path_exists_def split: option.splits)
  have "resolve E f' p = Some c"
    using c(1) walk_mono[of f f'] k by (auto simp: resolve_def keeps_def split: if_splits)
  moreover have "node_at f' c \<noteq> None" using c(2) k by (simp add: keeps_def)
  ultimately show ?thesis by (simp add: path_exists_def)
qed

lemma create_keeps:
  assumes free: "node_at f c = None"
  shows "keeps f (create c n f)"
proof -
  have "node_at (create c n f) q \<noteq> None" if q: "node_at f q \<noteq> None" for q
  proof (cases "q = []")
    case True
    then show ?thesis by (simp add: node_at_def)
  next
    case False
    with q have d: "is_dir f (butlast q)" and m: "map_of (nodes f) q \<noteq> None"
      by (auto simp: node_at_def split: if_splits)
    have "\<not> prefix c q"
    proof
      assume pre: "prefix c q"
      show False
      proof (cases "c = q")
        case True
        with free q show False by simp
      next
        case ne: False
        with pre have "prefix c (butlast q)" by (metis prefix_order.less_le prefixeq_butlast strict_prefix_def prefix_snoc snoc_eq_iff_butlast False)
        from is_dir_prefix[OF d this] is_dir_node_at free show False by fastforce
      qed
    qed
    then have "map_of (nodes (create c n f)) q = map_of (nodes f) q" by (rule map_of_create_other)
    with m create_keeps_dirs[OF free d] False show ?thesis by (simp add: node_at_def)
  qed
  with create_keeps_dirs[OF free] show ?thesis by (auto simp: keeps_def)
qed

lemma walk_create_keeps:
  assumes "walk_create f cur xs = (r, f')"
  shows "keeps f f'"
  using assms
proof (induction xs arbitrary: f cur)
  case Nil
  then show ?case by (auto simp: keeps_refl)
next
  case (Cons x xs)
  show ?case
  proof (cases "is_dir f cur")
    case False
    with Cons.prems show ?thesis by (auto simp: keeps_refl)
  next
    case cur: True
    show ?thesis
    proof (cases "x = [] \<or> x = [46]")
      case True
      with Cons.prems cur have "walk_create f cur xs = (r, f')" by auto
      from Cons.IH[OF this] show ?thesis .
    next
      case plain: False
      show ?thesis
      proof (cases "x = [46, 46]")
        case True
        with Cons.prems cur plain have "walk_create f (butlast cur) xs = (r, f')" by auto
        from Cons.IH[OF this] show ?thesis .
      next
        case name: False
        show ?thesis
        proof (cases "node_at f (cur @ [x]) = None")
          case True
          let ?f1 = "create (cur @ [x]) Dir f"
          from Cons.prems cur plain name True have "walk_create ?f1 (cur @ [x]) xs = (r, f')"
            by auto
          from Cons.IH[OF this] create_keeps[OF True] show ?thesis by (blast intro: keeps_trans)
        next
          case False
          with Cons.prems cur plain name have "walk_create f (cur @ [x]) xs = (r, f')" by auto
          from Cons.IH[OF this] show ?thesis .
        qed
      qed
    qed
  qed
qed

lemma ensure_dir_ok:
  assumes "ensure_dir E d f = (Inr u, f')"
  shows "path_exists E f' d \<and> keeps f f'"
proof (cases "path_exists E f d")
  case True
  with assms show ?thesis by (simp add: ensure_dir_def keeps_refl)
next
  case False
  with assms have mk: "makedirs E d f = (Inr u, f')" by (simp add: ensure_dir_def)
  then have ne: "d \<noteq> []" and
    wc: "walk_create f [] (split_slash (if hd d = 47 then d else getcwd E @ [47] @ d)) = (Inr u, f')"
    by (auto simp: makedirs_def split: option.splits prod.splits if_splits)
  from walk_create_ok[OF wc] ne obtain c where "resolve E f' d = Some c" "is_dir f' c"
    by (auto simp: resolve_def)
  with walk_create_keeps[OF wc] show ?thesis using dir_exists by blast
qed

lemma prepared_exists:
  assumes "prepared E out f = Some f1"
  shows "path_exists E f1 (path_join (getcwd E) (ustr ''audio'')) \<and> keeps f f1 \<and>
         (truthy_arg out \<longrightarrow> path_exists E f1 (path_join (getcwd E) (ustr ''result'')))"
proof -
  let ?a = "path_join (getcwd E) (ustr ''audio'')" and ?r = "path_join (getcwd E) (ustr ''result'')"
  from assms obtain u f0 where a: "ensure_dir E ?a f = (Inr u, f0)"
    by (auto simp: prepared_def split: prod.splits sum.splits)
  from ensure_dir_ok[OF a] have a0: "path_exists E f0 ?a" "keeps f f0" by auto
  show ?thesis
  proof (cases "truthy_arg out")
    case False
    with assms a have "f1 = f0" by (simp add: prepared_def)
    with a0 False show ?thesis by simp
  next
    case True
    with assms a obtain u' where r: "ensure_dir E ?r f0 = (Inr u', f1)"
      by (auto simp: prepared_def split: prod.splits sum.splits)
    from ensure_dir_ok[OF r] have "path_exists E f1 ?r" "keeps f0 f1" by auto
    with a0 keeps_exists[of f0 f1 E ?a] keeps_trans[of f f0 f1] show ?thesis by simp
  qed
qed

subsection \<open>Paths of Variant B\<close>

lemma basename_no_slash: "47 \<notin> set (basename p)"
  unfolding basename_def by (metis set_rev set_takeWhileD)

lemma path_join_plain:
  assumes "47 \<notin> set b" "a \<noteq> []" "last a \<noteq> 47"
  shows "path_join a b = a @ [47] @ b"
  using assms by (cases b) (auto simp: path_join_def)

lemma cwd_dir_shape:
  "path_join c (ustr ''audio'') \<noteq> [] \<and> last (path_join c (ustr ''audio'')) \<noteq> 47"
  "path_join c (ustr ''result'') \<noteq> [] \<and> last (path_join c (ustr ''result'')) \<noteq> 47"
  by (auto simp: path_join_def ustr_def)

lemma dirname_in_dir:
  assumes "47 \<notin> set n" "d \<noteq> []" "last d \<noteq> 47"
  shows "dirname (d @ [47] @ n) = d"
proof -
  have "dropWhile (\<lambda>c. c \<noteq> 47) (rev n @ 47 # rev d) = 47 # rev d"
    using assms(1) by (auto simp: dropWhile_append3)
  then have head: "rev (dropWhile (\<lambda>c. c \<noteq> 47) (rev (d @ [47] @ n))) = d @ [47]" by simp
  have ex: "\<exists>c \<in> set (d @ [47]). c \<noteq> 47" using assms(2,3) last_in_set by fastforce
  have "dropWhile (\<lambda>c. c = 47) (rev d) = rev d"
    using assms(2,3) by (cases "rev d") (auto simp: last_rev hd_rev)
  then have "rev (dropWhile (\<lambda>c. c = 47) (rev (d @ [47]))) = d" by simp
  with head ex show ?thesis unfolding dirname_def Let_def
    by (metis append_is_Nil_conv not_Cons_self2)
qed

lemma audio_target_shape:
  "audio_target E a = path_join (getcwd E) (ustr ''audio'') @ [47] @ basename a \<and>
   dirname (audio_target E a) = path_join (getcwd E) (ustr ''audio'')"
proof -
  let ?d = "path_join (getcwd E) (ustr ''audio'')"
  from cwd_dir_shape(1)[of "getcwd E"] have d: "?d \<noteq> []" "last ?d \<noteq> 47" by simp_all
  have eq: "audio_target E a = ?d @ [47] @ basename a"
    unfolding audio_target_def by (rule path_join_plain[OF basename_no_slash d])
  with dirname_in_dir[OF basename_no_slash d, of a] show ?thesis by simp
qed


subsection \<open>The adapters step by step\<close>

lemma download_audio_exited:
  assumes "run_process E (download_cmd u p) (filesys w) = (Exited rc, f1)"
  shows "download_audio E u p w = (Inr (rc = 0), w\<lparr>filesys := f1\<rparr>)"
  using assms by (simp add: download_audio_def subprocess_run_def)

lemma extract_in_present_dir:
  assumes dir: "dirname p = [] \<or> path_exists E (filesys w) (dirname p)"
    and run: "run_process E (extract_cmd u (splitext_root p) fmt) (filesys w) = (Exited rc, f2)"
  shows "extract_audio_body E u p fmt w =
           (if rc \<noteq> 0 then (Inl CalledProcessError, w\<lparr>filesys := f2\<rparr>)
            else if path_exists E f2 (splitext_root p @ [46] @ fmt) then
              (if splitext_root p @ [46] @ fmt \<noteq> p then
                 (case os_rename E (splitext_root p @ [46] @ fmt) p f2 of
                    (Inl e, f3) \<Rightarrow> (Inl e, w\<lparr>filesys := f3\<rparr>)
                  | (Inr v, f3) \<Rightarrow> (Inr True, w\<lparr>filesys := f3\<rparr>))
               else (Inr True, w\<lparr>filesys := f2\<rparr>))
            else (Inr False, w\<lparr>filesys := f2\<rparr>))"
proof -
  have first: "(if dirname p \<noteq> [] then ensure_dir E (dirname p) (filesys w) else (Inr (), filesys w))
               = (Inr (), filesys w)"
    using dir by (auto simp: ensure_dir_def)
  have sub: "subprocess_run E (extract_cmd u (splitext_root p) fmt) (filesys w)
             = (if rc \<noteq> 0 then Inl CalledProcessError else Inr (), f2)"
    using run by (simp add: subprocess_run_def)
  show ?thesis
    unfolding extract_audio_body_def Let_def first
    by (simp add: sub)
qed

lemma extract_fails:
  assumes dir: "dirname p = [] \<or> path_exists E (filesys w) (dirname p)"
    and run: "run_process E (extract_cmd u (splitext_root p) fmt) (filesys w) = (Exited rc, f2)"
    and bad: "rc \<noteq> 0 \<or> \<not> path_exists E f2 (splitext_root p @ [46] @ fmt)"
  shows "extract_audio_to_file E u p fmt w = (Inr False, w\<lparr>filesys := f2\<rparr>)"
  using bad unfolding extract_audio_to_file_def extract_in_present_dir[OF dir run]
  by auto

lemma os_rename_cases:
  "\<exists>r f'. os_rename E a b f = (r, f')"
  by (cases "os_rename E a b f") auto

lemma extract_body_log:
  assumes "extract_audio_body E u p fmt w = (r, w')"
  shows "opened w' = opened w \<and> stdout w' = stdout w"
proof -
  obtain r0 f0 where e0: "(if dirname p \<noteq> [] then ensure_dir E (dirname p) (filesys w)
                            else (Inr (), filesys w)) = (r0, f0)"
    by (cases "if dirname p \<noteq> [] then ensure_dir E (dirname p) (filesys w) else (Inr (), filesys w)")
  obtain r1 f1 where e1: "subprocess_run E (extract_cmd u (splitext_root p) fmt) f0 = (r1, f1)"
    by (cases "subprocess_run E (extract_cmd u (splitext_root p) fmt) f0")
  from assms show ?thesis
    unfolding extract_audio_body_def Let_def e0
    by (cases r0; cases r1) (auto simp: e1 split: if_splits prod.splits sum.splits)
qed

lemma extract_log:
  assumes "extract_audio_to_file E u p fmt w = (r, w')"
  shows "opened w' = opened w \<and> stdout w' = stdout w"
  using assms extract_body_log
  by (auto simp: extract_audio_to_file_def split: prod.splits)

subsection \<open>Adapter failures\<close>

lemma body_B_steps:
  assumes prep: "prepared E out (filesys w) = Some f1"
    and ex: "extract_audio_to_file E u (audio_target E a) fmt (w\<lparr>filesys := f1\<rparr>) = (rx, w2)"
  shows "process_video_with_audio_save_body E self u a out fmt w =
           (case rx of
              Inl e \<Rightarrow> (Inl e, w2)
            | Inr extracted \<Rightarrow>
                if \<not> extracted then (Inr False, w2)
                else
                  (case transcribe_local_audio E self (audio_target E a) w2 of
                     Inl e \<Rightarrow> (Inl e, w2)
                   | Inr tr \<Rightarrow>
                       if \<not> truthy tr then (Inr False, w2)
                       else output_results E tr
                              (if truthy_arg out then Some (json_target E (the out)) else out) w2))"
proof -
  let ?ad = "path_join (getcwd E) (ustr ''audio'')" and ?rd = "path_join (getcwd E) (ustr ''result'')"
  from prep obtain f0 where a0: "ensure_dir E ?ad (filesys w) = (Inr (), f0)"
    by (auto simp: prepared_def split: prod.splits sum.splits)
  have r1: "(if truthy_arg out then ensure_dir E ?rd f0 else (Inr (), f0)) = (Inr (), f1)"
    using prep a0 by (auto simp: prepared_def split: prod.splits sum.splits if_splits)
  have ex': "extract_audio_to_file E u (path_join ?ad (basename a)) fmt (w\<lparr>filesys := f1\<rparr>) = (rx, w2)"
    using ex by (simp add: audio_target_def)
  show ?thesis
    unfolding process_video_with_audio_save_body_def Let_def a0
    by (simp add: r1 ex' audio_target_def json_target_def split: sum.splits)
qed


lemma variant_A_failure:
  assumes af: "adapter_failure_A E self u w"
  shows "\<exists>r self' w'. process_video E self u out w = (r, self', w') \<and>
           opened w' = opened w \<and> stdout w' = stdout w \<and>
           (cleanup_returns E self u out w \<longrightarrow> r = Inr False)"
proof -
  from af have ni: "\<not> interrupt_before_try E" by (simp add: adapter_failure_A_def)
  from af obtain t f where mk: "mkdtemp E (filesys w) = (Inr t, f)"
    by (auto simp: adapter_failure_A_def split: prod.splits sum.splits)
  let ?self1 = "self\<lparr>temp_dir := Some t\<rparr>"
  let ?ap = "path_join t (ustr ''audio.%(ext)s'')"
  from af mk obtain rc f1 where run: "run_process E (download_cmd u ?ap) f = (Exited rc, f1)"
    and bad: "rc \<noteq> 0 \<or> glob_audio E t f1 = [] \<or>
              no_result (transcribe_audio E ?self1 (hd (glob_audio E t f1)) (w\<lparr>filesys := f1\<rparr>))"
    by (auto simp: adapter_failure_A_def split: prod.splits run_outcome.splits)
  let ?w1 = "w\<lparr>filesys := f1\<rparr>"
  have dl: "download_audio E u ?ap (w\<lparr>filesys := f\<rparr>) = (Inr (rc = 0), ?w1)"
    using download_audio_exited[of E u ?ap "w\<lparr>filesys := f\<rparr>" rc f1] run by simp
  have body: "process_video_body E ?self1 u out ?ap (w\<lparr>filesys := f\<rparr>) = (Inr False, ?w1)"
  proof (cases "rc = 0")
    case False
    with dl show ?thesis by (simp add: process_video_body_def)
  next
    case rc0: True
    show ?thesis
    proof (cases "glob_audio E t f1")
      case Nil
      with dl rc0 show ?thesis by (simp add: process_video_body_def)
    next
      case (Cons p ps)
      with bad rc0 have "no_result (transcribe_audio E ?self1 p ?w1)" by simp
      then obtain v where "transcribe_audio E ?self1 p ?w1 = Inr v" "\<not> truthy v"
        by (auto simp: no_result_def split: sum.splits)
      with dl rc0 Cons show ?thesis by (simp add: process_video_body_def)
    qed
  qed
  obtain rc2 w2 where cl: "cleanup E ?self1 ?w1 = (rc2, w2)" by (cases "cleanup E ?self1 ?w1")
  from cleanup_log[OF cl] have logs: "opened w2 = opened w" "stdout w2 = stdout w" by simp_all
  have cr: "cleanup_returns E self u out w \<longleftrightarrow> rc2 = Inr ()"
    using mk body cl by (simp add: cleanup_returns_def)
  show ?thesis
  proof (cases rc2)
    case (Inl e)
    with mk ni body cl have "process_video E self u out w = (Inl e, ?self1, w2)"
      by (simp add: process_video_def Let_def)
    with logs cr Inl show ?thesis by simp
  next
    case (Inr v)
    with mk ni body cl have "process_video E self u out w = (Inr False, ?self1, w2)"
      by (simp add: process_video_def Let_def)
    with logs show ?thesis by simp
  qed
qed

lemma variant_B_failure:
  assumes af: "adapter_failure_B E self u a out fmt w"
  shows "\<exists>w'. process_video_with_audio_save E self u a out fmt w = (Inr False, w') \<and>
           opened w' = opened w \<and> stdout w' = stdout w"
proof -
  from af obtain f1 where prep: "prepared E out (filesys w) = Some f1"
    by (auto simp: adapter_failure_B_def split: option.splits)
  let ?t = "audio_target E a"
  let ?w1 = "w\<lparr>filesys := f1\<rparr>"
  obtain rx w2 where ex: "extract_audio_to_file E u ?t fmt ?w1 = (rx, w2)"
    by (cases "extract_audio_to_file E u ?t fmt ?w1")
  from extract_log[OF ex] have logs: "opened w2 = opened w" "stdout w2 = stdout w" by simp_all
  have "dirname ?t = path_join (getcwd E) (ustr ''audio'')"
    using audio_target_shape[of E a] by (rule conjunct2)
  moreover have "path_exists E f1 (path_join (getcwd E) (ustr ''audio''))"
    using prepared_exists[OF prep] by (rule conjunct1)
  ultimately have dir: "dirname ?t = [] \<or> path_exists E (filesys ?w1) (dirname ?t)"
    by simp
  have "rx = Inr False \<or> (rx = Inr True \<and> no_result (transcribe_local_audio E self ?t w2))"
  proof (cases "case run_process E (extract_cmd u (splitext_root ?t) fmt) f1 of
                  (RunRaised e, f2) \<Rightarrow> False
                | (Exited rc, f2) \<Rightarrow> rc \<noteq> 0 \<or> \<not> path_exists E f2 (splitext_root ?t @ [46] @ fmt)")
    case True
    then obtain rc f2 where run: "run_process E (extract_cmd u (splitext_root ?t) fmt) (filesys ?w1) = (Exited rc, f2)"
      and bad: "rc \<noteq> 0 \<or> \<not> path_exists E f2 (splitext_root ?t @ [46] @ fmt)"
      by (auto split: prod.splits run_outcome.splits)
    from extract_fails[OF dir run bad] ex show ?thesis by simp
  next
    case False
    with af prep ex show ?thesis
      by (auto simp: adapter_failure_B_def Let_def split: sum.splits bool.splits if_splits)
  qed
  then have "process_video_with_audio_save_body E self u a out fmt w = (Inr False, w2)"
  proof
    assume "rx = Inr False"
    then show ?thesis using body_B_steps[OF prep ex] by simp
  next
    assume b: "rx = Inr True \<and> no_result (transcribe_local_audio E self ?t w2)"
    then obtain v where "transcribe_local_audio E self ?t w2 = Inr v" "\<not> truthy v"
      by (auto simp: no_result_def split: sum.splits)
    with b show ?thesis using body_B_steps[OF prep ex] by simp
  qed
  then show ?thesis using logs by (simp add: process_video_with_audio_save_def)
qed

text \<open>
  Claim C4, as the code has it. An adapter failure makes Variant B return \<open>False\<close>, and
  makes Variant A return \<open>False\<close> when its \<open>cleanup\<close> does not raise; in both variants the
  workflow then has opened no file for writing and printed nothing, whatever \<open>cleanup\<close>
  does. A missing \<open>whisper\<close> library makes the transcription adapter return no result.
\<close>

theorem adapter_failure_reported:
  "(adapter_failure_A E self video_url w \<longrightarrow>
      (\<exists>r self' w'. process_video E self video_url output_file w = (r, self', w') \<and>
         opened w' = opened w \<and> stdout w' = stdout w \<and>
         (cleanup_returns E self video_url output_file w \<longrightarrow> r = Inr False))) \<and>
   (adapter_failure_B E self video_url audio_output_path output_file audio_format w \<longrightarrow>
      (\<exists>w'. process_video_with_audio_save E self video_url audio_output_path output_file
               audio_format w = (Inr False, w') \<and>
         opened w' = opened w \<and> stdout w' = stdout w)) \<and>
   (import_whisper E = Some ImportError \<longrightarrow>
      no_result (transcribe_audio E self audio_path w) \<and>
      no_result (transcribe_local_audio E self audio_path w))"
proof -
  have "no_result (transcribe_audio E self audio_path w) \<and>
        no_result (transcribe_local_audio E self audio_path w)"
    if "import_whisper E = Some ImportError"
    using that by (simp add: transcribe_audio_def transcribe_local_audio_def no_result_def)
  with variant_A_failure[of E self video_url w output_file]
    variant_B_failure[of E self video_url audio_output_path output_file audio_format w]
  show ?thesis by blast
qed

text \<open>
  The theorem for a downloader that exits with status 1 in Variant A, and for a missing
  \<open>whisper\<close> library in Variant B.
\<close>

theorem adapter_failure_reported_witness:
  "adapter_failure_A (example_env run_failing None (Inr PNone)) (VideoTranscriber (ustr ''base''))
     (ustr ''https://example.org/v'') example_world \<and>
   cleanup_returns (example_env run_failing None (Inr PNone)) (VideoTranscriber (ustr ''base''))
     (ustr ''https://example.org/v'') (Some (ustr ''out.json'')) example_world \<and>
   (\<exists>self' w'. process_video (example_env run_failing None (Inr PNone))
                  (VideoTranscriber (ustr ''base'')) (ustr ''https://example.org/v'')
                  (Some (ustr ''out.json'')) example_world = (Inr False, self', w') \<and>
                opened w' = [] \<and> stdout w' = []) \<and>
   adapter_failure_B (example_env run_writing_wav (Some ImportError) (Inr example_result))
     (VideoTranscriber (ustr ''base'')) (ustr ''https://example.org/v'') (ustr ''x.wav'')
     (Some (ustr ''out.json'')) (ustr ''wav'') example_world \<and>
   (\<exists>w'. process_video_with_audio_save
            (example_env run_writing_wav (Some ImportError) (Inr example_result))
            (VideoTranscriber (ustr ''base'')) (ustr ''https://example.org/v'') (ustr ''x.wav'')
            (Some (ustr ''out.json'')) (ustr ''wav'') example_world = (Inr False, w') \<and>
          opened w' = [] \<and> stdout w' = [])"
proof -
  let ?A = "example_env run_failing None (Inr PNone)"
  let ?B = "example_env run_writing_wav (Some ImportError) (Inr example_result)"
  let ?self = "VideoTranscriber (ustr ''base'')"
  let ?u = "ustr ''https://example.org/v''"
  let ?o = "Some (ustr ''out.json'')"
  have fa: "adapter_failure_A ?A ?self ?u example_world" by code_simp
  have cr: "cleanup_returns ?A ?self ?u ?o example_world" by code_simp
  have fb: "adapter_failure_B ?B ?self ?u (ustr ''x.wav'') ?o (ustr ''wav'') example_world"
    by code_simp
  have lo: "opened example_world = [] \<and> stdout example_world = []"
    by (simp add: example_world_def)
  from adapter_failure_reported[of ?A ?self ?u example_world ?o] fa cr lo
  have a: "\<exists>self' w'. process_video ?A ?self ?u ?o example_world = (Inr False, self', w') \<and>
                opened w' = [] \<and> stdout w' = []"
    by auto
  from adapter_failure_reported[of ?B ?self ?u example_world ?o "ustr ''x.wav''" "ustr ''wav''"] fb lo
  have b: "\<exists>w'. process_video_with_audio_save ?B ?self ?u (ustr ''x.wav'') ?o (ustr ''wav'')
                  example_world = (Inr False, w') \<and> opened w' = [] \<and> stdout w' = []"
    by auto
  from fa cr a fb b show ?thesis by blast
qed

text \<open>
  Claim C4 as stated fails in Variant A where \<open>cleanup\<close> raises: the downloader exits with
  status 1, the operating system refuses to remove the temporary directory, and the
  workflow ends with that exception instead of returning \<open>False\<close>.
\<close>

theorem adapter_failure_then_cleanup_raises:
  "adapter_failure_A ((example_env run_failing None (Inr PNone))\<lparr>os_fault := rmtree_denied\<rparr>)
     (VideoTranscriber (ustr ''base'')) (ustr ''https://example.org/v'') example_world \<and>
   fst (process_video ((example_env run_failing None (Inr PNone))\<lparr>os_fault := rmtree_denied\<rparr>)
          (VideoTranscriber (ustr ''base'')) (ustr ''https://example.org/v'')
          (Some (ustr ''out.json'')) example_world) = Inl OSError"
proof -
  let ?E = "(example_env run_failing None (Inr PNone))\<lparr>os_fault := rmtree_denied\<rparr>"
  have "adapter_failure_A ?E (VideoTranscriber (ustr ''base'')) (ustr ''https://example.org/v'')
          example_world" by code_simp
  moreover have "fst (process_video ?E (VideoTranscriber (ustr ''base''))
          (ustr ''https://example.org/v'') (Some (ustr ''out.json'')) example_world) = Inl OSError"
    by code_simp
  ultimately show ?thesis by simp
qed

subsection \<open>Writing the JSON file\<close>








subsection \<open>Where Variant B puts its files\<close>










subsection \<open>Exit status\<close>








end
